theory Spec2Isabelle
  imports Complex_Main "HOL-Library.Word" "HOL-Library.Log_Nat"
begin

chapter \<open>A video host: range serving, transcode jobs and a status hub\<close>

text \<open>
  The development follows the Node.js server of the repository. Its newest program is the
  first one of \<open>src/unnamed/part_000\<close>: uploads, a background transcode with progress
  polling, a WebSocket hub that pushes the state of a job, and \<open>GET /v/:id\<close> with
  byte ranges. \<open>src/main.js\<close> is an older program of the same server, without the hub
  and with the job's fields written in the encoder's callbacks; its \<open>GET /v/:id\<close> and
  its metadata update have the same text. Every handler of the server runs to completion
  before the next event is taken, so a handler is a function from the state it finds to
  the state it leaves. What a package or the runtime decides (the table of
  \<open>mime-types\<close>, \<open>path.extname\<close>, the result of \<open>uuidv4()\<close>, the clock, whether a
  socket is open, whether a write to disk succeeds) is a parameter or a part of that
  state.
\<close>

section \<open>JavaScript values used by the handlers\<close>

text \<open>
  Strings are byte strings: Node decodes request header bytes as Latin-1, so every
  character of a header value is one \<open>char\<close>. File sizes and clocks are integers; the
  source holds them in IEEE doubles, which represent every integer up to \<open>2^53\<close>
  exactly, and no file or clock is beyond. The bounds of a Range header are read twice
  here: as the integers their digits name (\<open>parseInt\<close>, \<open>get_v\<close>), which is what the
  source computes while the bounds stay below \<open>2^53\<close>, and as the doubles the source
  computes for every header (\<open>parseInt_double\<close>, \<open>get_v_doubles\<close> further down). The
  results of the arithmetic on progress are rounded to doubles (\<open>binary64\<close>). An
  identifier, a header value or any other string is truthy in JavaScript exactly when it
  is not empty.
\<close>

type_synonym byte = "8 word"

definition truthy :: "string \<Rightarrow> bool" where
  "truthy s = (s \<noteq> [])"

text \<open>\<open>parseInt(s, 10)\<close>: leading white space is skipped, one sign is read, then the
  longest run of decimal digits; with no digit the result is \<open>NaN\<close>, here \<open>None\<close>.
  The white space characters below 256 are TAB, LF, VT, FF, CR, SP and NBSP.\<close>

definition is_digit :: "char \<Rightarrow> bool" where
  "is_digit c = (c \<in> set ''0123456789'')"

definition digit_val :: "char \<Rightarrow> int" where
  "digit_val c = int (of_char c) - 48"

definition is_space :: "char \<Rightarrow> bool" where
  "is_space c = ((of_char c :: nat) \<in> {9, 10, 11, 12, 13, 32, 160})"

definition digits_value :: "string \<Rightarrow> int" where
  "digits_value ds = foldl (\<lambda>acc c. acc * 10 + digit_val c) 0 ds"

definition parseInt :: "string \<Rightarrow> int option" where
  "parseInt s =
     (let t = dropWhile is_space s;
          neg = (t \<noteq> [] \<and> hd t = CHR ''-'');
          u = (if t \<noteq> [] \<and> (hd t = CHR ''-'' \<or> hd t = CHR ''+'') then tl t else t);
          ds = takeWhile is_digit u
      in if ds = [] then None
         else Some (if neg then - digits_value ds else digits_value ds))"

text \<open>Number to string, as a template literal renders an integer: decimal digits, with a
  minus sign for a negative number.\<close>

definition digit_char :: "nat \<Rightarrow> char" where
  "digit_char n = ''0123456789'' ! n"

function show_nat :: "nat \<Rightarrow> string" where
  "show_nat n = (if n < 10 then [digit_char n] else show_nat (n div 10) @ [digit_char (n mod 10)])"
  by pat_completeness auto
termination
  by (relation "measure id") auto

definition show_int :: "int \<Rightarrow> string" where
  "show_int i = (if i < 0 then CHR ''-'' # show_nat (nat (- i)) else show_nat (nat i))"

text \<open>\<open>range.replace(/bytes=/, '')\<close> removes the first occurrence of \<open>bytes=\<close>,
  wherever it stands; \<open>.split('-')\<close> cuts at every dash and always yields at least one
  part.\<close>

fun replace_bytes :: "string \<Rightarrow> string" where
  "replace_bytes [] = []"
| "replace_bytes (c # cs) =
     (if take 6 (c # cs) = ''bytes='' then drop 6 (c # cs) else c # replace_bytes cs)"

fun split_dash :: "string \<Rightarrow> string list" where
  "split_dash [] = [[]]"
| "split_dash (c # cs) =
     (if c = CHR ''-'' then [] # split_dash cs
      else (case split_dash cs of p # ps \<Rightarrow> (c # p) # ps | [] \<Rightarrow> [[c]]))"

text \<open>\<open>parts[i]\<close> is \<open>undefined\<close> past the end of the array; \<open>parts[0]\<close> is
  always there.\<close>

definition part :: "string list \<Rightarrow> nat \<Rightarrow> string option" where
  "part parts i = (if i < length parts then Some (parts ! i) else None)"

section \<open>Metadata registry and media store\<close>

text \<open>A record of \<open>data.json\<close>, with the fields the upload handler writes. The fields
  \<open>id\<close> and \<open>size\<close> carry a suffix, the names being taken in HOL.\<close>

record media_record =
  id_m :: string
  filename :: string
  originalName :: string
  mime :: string
  size_m :: int
  createdAt :: int
  converted :: bool

type_synonym metadata = "string \<rightharpoonup> media_record"

text \<open>The uploads directory: file name to content.\<close>

type_synonym store = "string \<rightharpoonup> byte list"

section \<open>Range media server: \<open>GET /v/:id\<close>\<close>

record response =
  status_code :: nat
  accept_ranges :: "string option"
  content_type :: "string option"
  content_range :: "string option"
  content_length :: "int option"
  body :: "byte list"

datatype reply = InvalidEmbed | Media response

text \<open>\<open>fs.createReadStream(filePath, {start, end})\<close> piped into the response: the
  bytes from offset \<open>start\<close> to offset \<open>end\<close>, both included, as far as the file
  has them.\<close>

definition createReadStream :: "byte list \<Rightarrow> int \<Rightarrow> int \<Rightarrow> byte list" where
  "createReadStream bytes start fin = take (nat (fin - start + 1)) (drop (nat start) bytes)"

text \<open>The two bounds the handler computes from a header value.\<close>

definition range_start :: "string \<Rightarrow> int option" where
  "range_start hdr = parseInt (hd (split_dash (replace_bytes hdr)))"

definition range_end :: "string \<Rightarrow> int \<Rightarrow> int option" where
  "range_end hdr fileSize =
     (case part (split_dash (replace_bytes hdr)) 1 of
        Some p \<Rightarrow> if truthy p then parseInt p else Some (fileSize - 1)
      | None \<Rightarrow> Some (fileSize - 1))"

text \<open>\<open>d[id].mime || mime.lookup(filePath) || 'application/octet-stream'\<close>, with
  \<open>mime_lookup\<close> the table of the \<open>mime-types\<close> package (\<open>None\<close> where it
  answers \<open>false\<close>).\<close>

definition contentType :: "(string \<Rightarrow> string option) \<Rightarrow> media_record \<Rightarrow> string" where
  "contentType mime_lookup r =
     (if truthy (mime r) then mime r
      else (case mime_lookup (filename r) of
              Some t \<Rightarrow> t
            | None \<Rightarrow> ''application/octet-stream''))"

text \<open>The handler. \<open>d\<close> is what \<open>readData()\<close> returned, \<open>uploads\<close> the uploads
  directory, \<open>hdr\<close> the request's Range header (\<open>None\<close> when the request has
  none; an empty value is falsy and takes the same branch). The two headers set before
  the branch stay on every response. A read error after the file was found is not
  modelled.\<close>

definition get_v ::
  "(string \<Rightarrow> string option) \<Rightarrow> metadata \<Rightarrow> store \<Rightarrow> string \<Rightarrow> string option \<Rightarrow> reply" where
  "get_v mime_lookup d uploads ident hdr =
     (case d ident of
        None \<Rightarrow> InvalidEmbed
      | Some r \<Rightarrow>
          (case uploads (filename r) of
             None \<Rightarrow> InvalidEmbed
           | Some bytes \<Rightarrow>
               (let fileSize = int (length bytes);
                    res = \<lparr>status_code = 200, accept_ranges = Some ''bytes'',
                           content_type = Some (contentType mime_lookup r),
                           content_range = None, content_length = None, body = []\<rparr>
                in if hdr \<noteq> None \<and> truthy (the hdr) then
                     (let start = range_start (the hdr);
                          fin = range_end (the hdr) fileSize
                      in if start = None \<or> fin = None \<or> the start > the fin then
                           Media (res\<lparr>status_code := 416,
                                      content_range := Some (''bytes */'' @ show_int fileSize)\<rparr>)
                         else
                           Media (res\<lparr>status_code := 206,
                                      content_range :=
                                        Some (''bytes '' @ show_int (the start) @ ''-''
                                              @ show_int (the fin) @ ''/'' @ show_int fileSize),
                                      content_length := Some (the fin - the start + 1),
                                      body := createReadStream bytes (the start) (the fin)\<rparr>))
                   else
                     Media (res\<lparr>content_length := Some fileSize, body := bytes\<rparr>))))"

text \<open>A registry with one record and its five-byte file, and one whose file is empty, for
  the concrete instances below.\<close>

definition sample_record :: media_record where
  "sample_record = \<lparr>id_m = ''a'', filename = ''a.mp4'', originalName = ''clip.mp4'',
     mime = ''video/mp4'', size_m = 5, createdAt = 0, converted = False\<rparr>"

definition sample_data :: metadata where
  "sample_data = [''a'' \<mapsto> sample_record]"

definition sample_files :: store where
  "sample_files = [''a.mp4'' \<mapsto> [10, 11, 12, 13, 14]]"

definition empty_files :: store where
  "empty_files = [''a.mp4'' \<mapsto> []]"

definition no_mime :: "string \<Rightarrow> string option" where
  "no_mime name = None"

section \<open>Transcode jobs and the status hub\<close>

text \<open>A job of the in-memory table \<open>transcodeJobs\<close>. \<open>status\<close> is one of the strings
  \<open>queued\<close>, \<open>running\<close>, \<open>done\<close>, \<open>error\<close>; the fields \<open>startedAt\<close>,
  \<open>elapsed\<close>, \<open>eta\<close> and \<open>timemark\<close> are absent until a handler sets them, and
  \<open>eta\<close> can be set to \<open>null\<close>.\<close>

datatype job_status = Queued | Running | Done | Error

datatype eta_value = EtaUnset | EtaNull | Eta int

record job =
  status :: job_status
  progress :: int
  message :: string
  startedAt :: "int option"
  elapsed :: "int option"
  eta :: eta_value
  timemark :: "string option"

text \<open>What a reader of the table is shown by \<open>transcodeJobs[id] || {status: 'none'}\<close>:
  the job, or \<open>{status: 'none'}\<close>, or a value that is no job at all. The table is a
  plain object (\<open>const transcodeJobs = {}\<close>), so an identifier that is the name of a
  property of \<open>Object.prototype\<close> finds, when the table has no entry of its own for it,
  what the prototype holds: a function, or for \<open>__proto__\<close> the prototype itself. Each
  of these is truthy and has no \<open>status\<close>; \<open>JSON.stringify\<close> leaves a function out
  of the message and renders the prototype as \<open>{}\<close>.\<close>

datatype job_view = NoJob | Job job | Inherited

definition object_prototype_names :: "string list" where
  "object_prototype_names = [''constructor'', ''__proto__'', ''hasOwnProperty'',
     ''isPrototypeOf'', ''propertyIsEnumerable'', ''toLocaleString'', ''toString'',
     ''valueOf'', ''__defineGetter__'', ''__defineSetter__'', ''__lookupGetter__'',
     ''__lookupSetter__'']"

text \<open>A WebSocket connection is named by a number. Its \<open>readyState\<close> and whether a
  \<open>send\<close> on it throws belong to the \<open>ws\<close> package and are part of the state the
  handlers find. Everything a client is shown is recorded, in order: a status message
  handed to \<open>ws.send\<close> (delivered, or lost because the call threw), and the answer to a
  \<open>GET /transcode-status/:id\<close>.\<close>

datatype ready_state = CONNECTING | OPEN | CLOSING | CLOSED

datatype observation =
    Sent nat string job_view
  | SendThrew nat string job_view
  | Polled string job_view

record world =
  files :: store
  data_json :: "metadata option"
  data_writable :: bool
  transcodeJobs :: "string \<rightharpoonup> job"
  subscribers :: "string \<rightharpoonup> nat list"
  subscribedId :: "nat \<rightharpoonup> string"
  readyState :: "nat \<Rightarrow> ready_state"
  send_throws :: "nat \<Rightarrow> bool"
  observed :: "observation list"

text \<open>\<open>readData\<close> answers the empty mapping when \<open>data.json\<close> cannot be read or parsed
  (\<open>data_json = None\<close>); \<open>writeData\<close> overwrites the file, or throws when the write
  fails. A thrown exception is \<open>Inl\<close> with its message and the state at the throw.\<close>

definition readData :: "world \<Rightarrow> metadata" where
  "readData w = (case data_json w of None \<Rightarrow> Map.empty | Some d \<Rightarrow> d)"

definition writeData :: "metadata \<Rightarrow> world \<Rightarrow> (string \<times> world) + world" where
  "writeData d w =
     (if data_writable w then Inr (w\<lparr>data_json := Some d\<rparr>)
      else Inl (''EACCES: permission denied, open data.json'', w))"

text \<open>The identifiers of uploads and of their tasks are values of \<open>uuidv4()\<close> and never
  such names; an identifier that a client sends (in a \<open>subscribe\<close> message, in
  \<open>GET /transcode-status/:id\<close>) can be one, and these handlers read the table through
  \<open>job_view_of\<close>.\<close>

definition job_view_of :: "world \<Rightarrow> string \<Rightarrow> job_view" where
  "job_view_of w ident =
     (case transcodeJobs w ident of
        Some j \<Rightarrow> Job j
      | None \<Rightarrow> if ident \<in> set object_prototype_names then Inherited else NoJob)"

text \<open>\<open>ws.send(JSON.stringify({type: 'status', id, job}))\<close>.\<close>

definition ws_send :: "nat \<Rightarrow> string \<Rightarrow> job_view \<Rightarrow> world \<Rightarrow> world + world" where
  "ws_send ws ident v w =
     (if send_throws w ws then Inl (w\<lparr>observed := observed w @ [SendThrew ws ident v]\<rparr>)
      else Inr (w\<lparr>observed := observed w @ [Sent ws ident v]\<rparr>))"

text \<open>A JavaScript \<open>Set\<close> keeps its members in insertion order.\<close>

definition set_add :: "nat \<Rightarrow> nat list \<Rightarrow> nat list" where
  "set_add ws conns = (if ws \<in> set conns then conns else conns @ [ws])"

definition set_delete :: "nat \<Rightarrow> nat list \<Rightarrow> nat list" where
  "set_delete ws conns = removeAll ws conns"

text \<open>\<open>broadcastStatus(id)\<close>: the loop body sends to an open socket inside its own
  \<open>try\<close>; an exception of \<open>send\<close> ends that iteration only.\<close>

definition broadcast_one :: "string \<Rightarrow> job_view \<Rightarrow> nat \<Rightarrow> world \<Rightarrow> world" where
  "broadcast_one ident v ws w =
     (if readyState w ws = OPEN then
        (case ws_send ws ident v w of Inl w' \<Rightarrow> w' | Inr w' \<Rightarrow> w')
      else w)"

definition broadcastStatus :: "string \<Rightarrow> world \<Rightarrow> world" where
  "broadcastStatus ident w =
     (case subscribers w ident of
        None \<Rightarrow> w
      | Some conns \<Rightarrow> fold (broadcast_one ident (job_view_of w ident)) conns w)"

text \<open>A message of a client, after \<open>JSON.parse\<close>: \<open>data.type\<close> and \<open>data.id\<close> as
  strings (empty when the field is missing), or text that does not parse. A message whose
  \<open>id\<close> is a JSON value other than a string is left out.\<close>

datatype client_data = Unparsable | Data string string

text \<open>The \<open>message\<close> handler. An exception of \<open>ws.send\<close> leaves the handler through
  the outer \<open>catch\<close>, after the subscription was recorded.\<close>

definition on_message :: "nat \<Rightarrow> client_data \<Rightarrow> world \<Rightarrow> world" where
  "on_message ws msg w =
     (case msg of
        Unparsable \<Rightarrow> w
      | Data ty ident \<Rightarrow>
          (case (if ty = ''subscribe'' \<and> truthy ident then
                   (let conns = (case subscribers w ident of None \<Rightarrow> [] | Some s \<Rightarrow> s);
                        w1 = w\<lparr>subscribers := (subscribers w)(ident \<mapsto> set_add ws conns),
                                subscribedId := (subscribedId w)(ws \<mapsto> ident)\<rparr>
                    in ws_send ws ident (job_view_of w1 ident) w1)
                 else Inr w) of
             Inl w' \<Rightarrow> w'
           | Inr w1 \<Rightarrow>
               if ty = ''unsubscribe'' \<and> truthy ident then
                 (case subscribers w1 ident of
                    None \<Rightarrow> w1
                  | Some s \<Rightarrow> w1\<lparr>subscribers := (subscribers w1)(ident \<mapsto> set_delete ws s)\<rparr>)
               else w1))"

text \<open>The \<open>close\<close> handler, and the event that runs it: the \<open>ws\<close> package has set the
  socket's \<open>readyState\<close> to \<open>CLOSED\<close> when it emits \<open>close\<close>.\<close>

definition on_close :: "nat \<Rightarrow> world \<Rightarrow> world" where
  "on_close ws w =
     (case subscribedId w ws of
        None \<Rightarrow> w
      | Some ident \<Rightarrow>
          if truthy ident then
            (case subscribers w ident of
               None \<Rightarrow> w
             | Some s \<Rightarrow> w\<lparr>subscribers := (subscribers w)(ident \<mapsto> set_delete ws s)\<rparr>)
          else w)"

definition ws_closed :: "nat \<Rightarrow> world \<Rightarrow> world" where
  "ws_closed ws w = on_close ws (w\<lparr>readyState := (readyState w)(ws := CLOSED)\<rparr>)"

text \<open>\<open>GET /transcode-status/:id\<close>.\<close>

definition transcode_status :: "string \<Rightarrow> world \<Rightarrow> world" where
  "transcode_status ident w = w\<lparr>observed := observed w @ [Polled ident (job_view_of w ident)]\<rparr>"

text \<open>A world with nothing in it and every socket open, to build concrete instances.\<close>

definition empty_world :: world where
  "empty_world = \<lparr>files = Map.empty, data_json = Some Map.empty, data_writable = True,
     transcodeJobs = Map.empty, subscribers = Map.empty, subscribedId = Map.empty,
     readyState = (\<lambda>ws. OPEN), send_throws = (\<lambda>ws. False), observed = []\<rparr>"

text \<open>The record of one call of \<open>ws.send\<close>.\<close>

definition send_result :: "world \<Rightarrow> string \<Rightarrow> job_view \<Rightarrow> nat \<Rightarrow> observation" where
  "send_result w ident v ws = (if send_throws w ws then SendThrew ws ident v else Sent ws ident v)"

text \<open>Worlds for the concrete instances: one with a finished job, one where the first of two
  subscribers is closing, and a connection that subscribes to two identifiers and then
  closes.\<close>

definition finished_job :: job where
  "finished_job = \<lparr>status = Done, progress = 100, message = ''finished'',
     startedAt = Some 1000, elapsed = Some 4, eta = Eta 0, timemark = None\<rparr>"

definition finished_world :: world where
  "finished_world = empty_world\<lparr>transcodeJobs := [''a'' \<mapsto> finished_job]\<rparr>"

definition closing_world :: world where
  "closing_world = empty_world\<lparr>subscribers := [''a'' \<mapsto> [1, 2]],
     subscribedId := [1 \<mapsto> ''a'', 2 \<mapsto> ''a''],
     readyState := (\<lambda>ws. if ws = 1 then CLOSING else OPEN)\<rparr>"

definition throwing_world :: world where
  "throwing_world = empty_world\<lparr>subscribers := [''a'' \<mapsto> [1, 2, 3]],
     subscribedId := [1 \<mapsto> ''a'', 2 \<mapsto> ''a'', 3 \<mapsto> ''a''],
     send_throws := (\<lambda>ws. ws = 2)\<rparr>"

definition two_subscriptions_closed :: world where
  "two_subscriptions_closed =
     ws_closed 1 (on_message 1 (Data ''subscribe'' ''b'')
       (on_message 1 (Data ''subscribe'' ''a'') empty_world))"

section \<open>The transcode task of \<open>src/unnamed/part_000\<close>\<close>

text \<open>What the handlers take from packages and from the runtime: \<open>path.extname\<close>,
  \<open>String.prototype.toLowerCase\<close>, \<open>mime.lookup\<close> (\<open>None\<close> for \<open>false\<close>), and
  \<open>fl\<close>, the rounding of the result of one floating-point operation to a double:
  \<open>binary64\<close> below. With \<open>fl = id\<close> the arithmetic is exact.\<close>

record libs =
  extname :: "string \<Rightarrow> string"
  toLowerCase :: "string \<Rightarrow> string"
  lookup :: "string \<Rightarrow> string option"
  fl :: "rat \<Rightarrow> rat"

text \<open>\<open>Math.round\<close>: the nearest integer, a half going up.\<close>

definition js_round :: "rat \<Rightarrow> int" where
  "js_round x = \<lfloor>x + 1 / 2\<rfloor>"

text \<open>The three estimates of the polling callback:
  \<open>Math.min(100, Math.round((outSize / inputSize) * 100))\<close>,
  \<open>Math.max(0, Math.round((Date.now() - startTime) / 1000))\<close> and
  \<open>Math.max(0, Math.round(elapsed * (100 / pct)) - elapsed)\<close>.\<close>

definition percent_estimate :: "(rat \<Rightarrow> rat) \<Rightarrow> int \<Rightarrow> int \<Rightarrow> int" where
  "percent_estimate rnd outSize inSize =
     min 100 (js_round (rnd (rnd (of_int outSize / of_int inSize) * 100)))"

definition elapsed_seconds :: "(rat \<Rightarrow> rat) \<Rightarrow> int \<Rightarrow> int \<Rightarrow> int" where
  "elapsed_seconds rnd now start = max 0 (js_round (rnd (of_int (now - start) / 1000)))"

definition eta_estimate :: "(rat \<Rightarrow> rat) \<Rightarrow> int \<Rightarrow> int \<Rightarrow> int" where
  "eta_estimate rnd secs pct =
     max 0 (js_round (rnd (of_int secs * rnd (100 / of_int pct))) - secs)"

text \<open>The closure of one call of \<open>transcodeToMp4(inputPath, outputPath, jobId)\<close> and of the
  background task that awaits it: the paths, \<open>inputSize\<close> and \<open>startTime\<close> taken at the
  call, whether the polling interval is set, and whether the promise is settled (a promise
  settles once; a later \<open>resolve\<close> or \<open>reject\<close> does nothing).\<close>

record task =
  jobId :: string
  inputPath :: string
  outputPath :: string
  inputSize :: int
  startTime :: int
  polling :: bool
  settled :: bool

text \<open>What happens while a task lives. Each event is handled to completion before the next
  one: the encoder's \<open>start\<close>, \<open>progress\<close> (with \<open>p.percent\<close> and \<open>p.timemark\<close>),
  \<open>end\<close> and \<open>error\<close> (with the message), a firing of the polling timer, the encoder
  writing the output file, a client asking \<open>GET /transcode-status/:id\<close>, a message
  on a WebSocket connection, and the closing of one. A clock value is \<open>Date.now()\<close> at
  the event.\<close>

datatype event =
    FfStart int
  | Tick int
  | FfProgress "rat option" "string option"
  | OutputWritten "byte list"
  | FfEnd int
  | FfError string
  | GetStatus
  | WsMessage nat client_data
  | WsClosed nat

text \<open>A write to fields of \<open>transcodeJobs[id]\<close>. No handler removes an entry from the
  table, so the writes the source makes without a test find the entry their task was
  started with.\<close>

definition update_job :: "string \<Rightarrow> (job \<Rightarrow> job) \<Rightarrow> world \<Rightarrow> world" where
  "update_job ident f w =
     (case transcodeJobs w ident of
        None \<Rightarrow> w
      | Some j \<Rightarrow> w\<lparr>transcodeJobs := (transcodeJobs w)(ident \<mapsto> f j)\<rparr>)"

text \<open>\<open>if (jobId && transcodeJobs[jobId])\<close>.\<close>

definition has_job :: "string \<Rightarrow> world \<Rightarrow> bool" where
  "has_job ident w = (truthy ident \<and> transcodeJobs w ident \<noteq> None)"

definition on_start :: "int \<Rightarrow> task \<Rightarrow> world \<Rightarrow> task \<times> world" where
  "on_start now t w =
     (t\<lparr>polling := True\<rparr>,
      if has_job (jobId t) w then
        broadcastStatus (jobId t)
          (update_job (jobId t)
             (\<lambda>j. j\<lparr>progress := 0, message := ''remuxing (copying)'', startedAt := Some now\<rparr>) w)
      else w)"

definition on_tick :: "libs \<Rightarrow> int \<Rightarrow> task \<Rightarrow> world \<Rightarrow> task \<times> world" where
  "on_tick lb now t w =
     (if \<not> polling t \<or> inputSize t = 0 then (t, w)
      else
        (let outSize = (case files w (outputPath t) of None \<Rightarrow> 0 | Some b \<Rightarrow> int (length b));
             pct = percent_estimate (fl lb) outSize (inputSize t)
         in if has_job (jobId t) w then
              (let secs = elapsed_seconds (fl lb) now (startTime t)
               in (t, broadcastStatus (jobId t)
                        (update_job (jobId t)
                           (\<lambda>j. j\<lparr>progress := pct, elapsed := Some secs,
                                   eta := (if pct > 0 then Eta (eta_estimate (fl lb) secs pct)
                                           else EtaNull)\<rparr>) w)))
            else (t, w)))"

definition on_progress :: "string option \<Rightarrow> task \<Rightarrow> world \<Rightarrow> task \<times> world" where
  "on_progress tm t w =
     (t, if has_job (jobId t) w \<and> tm \<noteq> None \<and> truthy (the tm) then
           broadcastStatus (jobId t) (update_job (jobId t) (\<lambda>j. j\<lparr>timemark := tm\<rparr>) w)
         else w)"

text \<open>After a successful \<open>await\<close>: the uploaded file is unlinked (a failure is ignored),
  then the record is read, changed and written back. \<open>statSync\<close> throws when the
  converted file is missing, \<open>writeData\<close> when the write fails.\<close>

definition converted_record :: "libs \<Rightarrow> string \<Rightarrow> byte list \<Rightarrow> media_record \<Rightarrow> media_record" where
  "converted_record lb name bytes r =
     r\<lparr>filename := name,
       mime := (case lookup lb name of Some m \<Rightarrow> m | None \<Rightarrow> mime r),
       size_m := int (length bytes),
       converted := True\<rparr>"

definition replace_and_update :: "libs \<Rightarrow> task \<Rightarrow> world \<Rightarrow> (string \<times> world) + world" where
  "replace_and_update lb t w =
     (let w1 = w\<lparr>files := (files w)(inputPath t := None)\<rparr>;
          d2 = readData w1
      in case d2 (jobId t) of
           None \<Rightarrow> Inr w1
         | Some r \<Rightarrow>
             (case files w1 (outputPath t) of
                None \<Rightarrow> Inl (''ENOENT: no such file or directory, stat'', w1)
              | Some bytes \<Rightarrow>
                  writeData (d2(jobId t \<mapsto> converted_record lb (outputPath t) bytes r)) w1))"

text \<open>The \<open>catch\<close> of the background task, and its path without an exception.
  \<open>err.message || String(err)\<close> is the message, or \<open>Error\<close> for an empty one.\<close>

definition error_text :: "string \<Rightarrow> string" where
  "error_text msg = (if truthy msg then msg else ''Error'')"

definition task_failed :: "string \<Rightarrow> task \<Rightarrow> world \<Rightarrow> world" where
  "task_failed msg t w =
     broadcastStatus (jobId t)
       (update_job (jobId t) (\<lambda>j. j\<lparr>status := Error, message := error_text msg\<rparr>) w)"

definition task_succeeded :: "libs \<Rightarrow> task \<Rightarrow> world \<Rightarrow> world" where
  "task_succeeded lb t w =
     (case replace_and_update lb t w of
        Inl (msg, w2) \<Rightarrow> task_failed msg t w2
      | Inr w2 \<Rightarrow>
          broadcastStatus (jobId t)
            (update_job (jobId t)
               (\<lambda>j. j\<lparr>status := Done, progress := 100, message := ''finished''\<rparr>) w2))"

definition on_end :: "libs \<Rightarrow> int \<Rightarrow> task \<Rightarrow> world \<Rightarrow> task \<times> world" where
  "on_end lb now t w =
     (let w1 = (if has_job (jobId t) w then
                  broadcastStatus (jobId t)
                    (update_job (jobId t)
                       (\<lambda>j. j\<lparr>progress := 100,
                               elapsed := Some (elapsed_seconds (fl lb) now (startTime t)),
                               eta := Eta 0\<rparr>) w)
                else w)
      in if settled t then (t\<lparr>polling := False\<rparr>, w1)
         else (t\<lparr>polling := False, settled := True\<rparr>, task_succeeded lb t w1))"

definition on_error :: "string \<Rightarrow> task \<Rightarrow> world \<Rightarrow> task \<times> world" where
  "on_error msg t w =
     (if settled t then (t\<lparr>polling := False\<rparr>, w)
      else (t\<lparr>polling := False, settled := True\<rparr>, task_failed (error_text msg) t w))"

fun handle :: "libs \<Rightarrow> event \<Rightarrow> task \<times> world \<Rightarrow> task \<times> world" where
  "handle lb (FfStart now) (t, w) = on_start now t w"
| "handle lb (Tick now) (t, w) = on_tick lb now t w"
| "handle lb (FfProgress pc tm) (t, w) = on_progress tm t w"
| "handle lb (OutputWritten bytes) (t, w) = (t, w\<lparr>files := (files w)(outputPath t \<mapsto> bytes)\<rparr>)"
| "handle lb (FfEnd now) (t, w) = on_end lb now t w"
| "handle lb (FfError msg) (t, w) = on_error msg t w"
| "handle lb GetStatus (t, w) = (t, transcode_status (jobId t) w)"
| "handle lb (WsMessage ws msg) (t, w) = (t, on_message ws msg w)"
| "handle lb (WsClosed ws) (t, w) = (t, ws_closed ws w)"

definition run :: "libs \<Rightarrow> event list \<Rightarrow> task \<times> world \<Rightarrow> task \<times> world" where
  "run lb evs tw = fold (handle lb) evs tw"

section \<open>The transcode task of \<open>src/main.js\<close>\<close>

text \<open>The older handler sets the job's fields in the encoder's callbacks, without a test for
  the job and without a broadcast; it has no polling timer, and the server has no WebSocket
  endpoint. The \<open>end\<close> callback marks the job \<open>done\<close> (\<open>main_end_callback\<close>) and
  resolves the promise; the rest of the task runs as a microtask in the same turn of the
  event loop, before any request is served, and its \<open>catch\<close> marks the job \<open>error\<close>
  when the replacement throws.\<close>

definition main_end_callback :: "task \<Rightarrow> world \<Rightarrow> world" where
  "main_end_callback t w =
     update_job (jobId t) (\<lambda>j. j\<lparr>status := Done, progress := 100, message := ''finished''\<rparr>) w"

definition main_on_end :: "libs \<Rightarrow> task \<Rightarrow> world \<Rightarrow> task \<times> world" where
  "main_on_end lb t w =
     (let w1 = main_end_callback t w
      in if settled t then (t, w1)
         else (t\<lparr>settled := True\<rparr>,
               case replace_and_update lb t w1 of
                 Inr w2 \<Rightarrow> w2
               | Inl (msg, w2) \<Rightarrow>
                   update_job (jobId t) (\<lambda>j. j\<lparr>status := Error, message := error_text msg\<rparr>) w2))"

definition main_on_error :: "string \<Rightarrow> task \<Rightarrow> world \<Rightarrow> task \<times> world" where
  "main_on_error msg t w =
     (let w1 = update_job (jobId t) (\<lambda>j. j\<lparr>status := Error, message := error_text msg\<rparr>) w
      in if settled t then (t, w1)
         else (t\<lparr>settled := True\<rparr>,
               update_job (jobId t) (\<lambda>j. j\<lparr>status := Error, message := error_text msg\<rparr>) w1))"

fun main_handle :: "libs \<Rightarrow> event \<Rightarrow> task \<times> world \<Rightarrow> task \<times> world" where
  "main_handle lb (FfStart now) (t, w) =
     (t, update_job (jobId t) (\<lambda>j. j\<lparr>message := ''started''\<rparr>) w)"
| "main_handle lb (Tick now) (t, w) = (t, w)"
| "main_handle lb (FfProgress pc tm) (t, w) =
     (t, update_job (jobId t)
           (\<lambda>j. j\<lparr>progress := js_round (case pc of None \<Rightarrow> 0 | Some p \<Rightarrow> p),
                   message := ''running''\<rparr>) w)"
| "main_handle lb (OutputWritten bytes) (t, w) = (t, w\<lparr>files := (files w)(outputPath t \<mapsto> bytes)\<rparr>)"
| "main_handle lb (FfEnd now) (t, w) = main_on_end lb t w"
| "main_handle lb (FfError msg) (t, w) = main_on_error msg t w"
| "main_handle lb GetStatus (t, w) = (t, transcode_status (jobId t) w)"
| "main_handle lb (WsMessage ws msg) (t, w) = (t, w)"
| "main_handle lb (WsClosed ws) (t, w) = (t, w)"

definition main_run :: "libs \<Rightarrow> event list \<Rightarrow> task \<times> world \<Rightarrow> task \<times> world" where
  "main_run lb evs tw = fold (main_handle lb) evs tw"

text \<open>The encoder ends a run once, with \<open>end\<close> or with \<open>error\<close>.\<close>

fun terminal :: "event \<Rightarrow> bool" where
  "terminal (FfEnd now) = True"
| "terminal (FfError msg) = True"
| "terminal ev = False"

definition ends_once :: "event list \<Rightarrow> bool" where
  "ends_once evs = (length (filter terminal evs) \<le> 1)"

section \<open>Rounding to a double\<close>

text \<open>The value an IEEE 754 binary64 operation returns for the exact result \<open>x\<close>: the
  nearest number with a significand of 53 bits, a tie going to the even significand.
  Subnormal numbers are left out: the quotients and products of file sizes, clocks and
  percentages are 0 or far above them. A result of \<open>2^1024\<close> or more stands for an
  overflow, which only the reading of a header bound can reach (\<open>to_double\<close>).\<close>

definition pow2 :: "int \<Rightarrow> rat" where
  "pow2 k = (if 0 \<le> k then 2 ^ nat k else 1 / 2 ^ nat (- k))"

definition round_half_even :: "rat \<Rightarrow> int" where
  "round_half_even y =
     (let f = \<lfloor>y\<rfloor>; r = y - of_int f
      in if r < 1 / 2 then f else if 1 / 2 < r then f + 1 else if even f then f else f + 1)"

definition exponent_of :: "rat \<Rightarrow> int" where
  "exponent_of x =
     (let (p, q) = quotient_of x; d = bitlen p - bitlen q
      in if x < pow2 d then d - 1 else d)"

definition binary64 :: "rat \<Rightarrow> rat" where
  "binary64 x =
     (if x = 0 then 0
      else (let a = \<bar>x\<bar>; ulp = pow2 (exponent_of a - 52);
                m = of_int (round_half_even (a / ulp)) * ulp
            in if x < 0 then - m else m))"

section \<open>\<open>GET /v/:id\<close> with the numbers of the source\<close>

text \<open>
  \<open>get_v\<close> reads the bounds of a Range header as the integers their digits name. The
  source differs from it in three places, and \<open>get_v_doubles\<close> is the handler with all
  of them.

  \<^item> \<open>parseInt\<close> returns a double: the integer read, rounded to 53 significant bits,
    or \<open>Infinity\<close> from \<open>2^1024 - 2^970\<close> on. The doubles that come up are integers
    or \<open>Infinity\<close> (\<open>number\<close>); \<open>NaN\<close> stays \<open>None\<close>. A part of the split holds
    no dash, so no negative number is read.
  \<^item> \<open>fs.createReadStream(path, {start, end})\<close> checks its options before it opens the
    file: \<open>start\<close> has to be an integer from 0 to \<open>2^53 - 1\<close>, and so has \<open>end\<close>
    unless it is \<open>Infinity\<close>, which reads to the end of the file. Otherwise it throws
    \<open>ERR_OUT_OF_RANGE\<close> inside the handler. No header has been sent by then, and
    Express answers the request with status 500.
  \<^item> \<open>readData()\<close> returns a plain object, so \<open>d[id]\<close> is truthy for an identifier
    that names a property of \<open>Object.prototype\<close> although no record is stored under it;
    what is found has no \<open>filename\<close>, \<open>path.join\<close> throws a \<open>TypeError\<close>, and the
    answer is 500 again.

  On a stored record and bounds up to \<open>2^53 - 1\<close> the two handlers agree
  (\<open>get_v_doubles_safe\<close>).
\<close>

datatype number = Finite int | Infinity

definition MAX_SAFE_INTEGER :: int where
  "MAX_SAFE_INTEGER = 2 ^ 53 - 1"

text \<open>The double of an integer. The rounded value is an integer again; it is \<open>2^1024\<close>
  or more exactly when it has more than 1024 binary digits.\<close>

definition to_double :: "int \<Rightarrow> number" where
  "to_double v =
     (let n = \<lfloor>binary64 (of_int v)\<rfloor> in if 1024 < bitlen n then Infinity else Finite n)"

fun exceeds :: "number \<Rightarrow> number \<Rightarrow> bool" where
  "exceeds (Finite a) (Finite b) = (b < a)"
| "exceeds Infinity (Finite b) = True"
| "exceeds x Infinity = False"

definition parseInt_double :: "string \<Rightarrow> number option" where
  "parseInt_double s = map_option to_double (parseInt s)"

definition range_start_double :: "string \<Rightarrow> number option" where
  "range_start_double hdr = parseInt_double (hd (split_dash (replace_bytes hdr)))"

definition range_end_double :: "string \<Rightarrow> int \<Rightarrow> number option" where
  "range_end_double hdr fileSize =
     (case part (split_dash (replace_bytes hdr)) 1 of
        Some p \<Rightarrow> if truthy p then parseInt_double p else Some (Finite (fileSize - 1))
      | None \<Rightarrow> Some (Finite (fileSize - 1)))"

text \<open>A number in a template literal.\<close>

definition show_number :: "number \<Rightarrow> string" where
  "show_number x = (case x of Finite i \<Rightarrow> show_int i | Infinity \<Rightarrow> ''Infinity'')"

text \<open>\<open>fs.createReadStream(path, {start, end})\<close> with the check of its options; \<open>None\<close>
  is the exception \<open>ERR_OUT_OF_RANGE\<close>.\<close>

definition createReadStream_checked :: "byte list \<Rightarrow> number \<Rightarrow> number \<Rightarrow> byte list option" where
  "createReadStream_checked bytes start fin =
     (case start of
        Infinity \<Rightarrow> None
      | Finite s \<Rightarrow>
          if s < 0 \<or> MAX_SAFE_INTEGER < s then None
          else (case fin of
                  Infinity \<Rightarrow> Some (drop (nat s) bytes)
                | Finite e \<Rightarrow>
                    if e < 0 \<or> MAX_SAFE_INTEGER < e \<or> e < s then None
                    else Some (createReadStream bytes s e)))"

text \<open>What becomes of a request: an answer of the handler; status 500 from Express after an
  exception in the handler; or, for an end bound of \<open>Infinity\<close>, a response with the
  header \<open>Content-Length: Infinity\<close> (\<open>Endless\<close>: the record's \<open>content_length\<close>, an
  integer, is \<open>None\<close> there).\<close>

datatype outcome = Answered reply | Status500 | Endless response

definition get_v_doubles ::
  "(string \<Rightarrow> string option) \<Rightarrow> metadata \<Rightarrow> store \<Rightarrow> string \<Rightarrow> string option \<Rightarrow> outcome" where
  "get_v_doubles mime_lookup d uploads ident hdr =
     (case d ident of
        None \<Rightarrow> if ident \<in> set object_prototype_names then Status500 else Answered InvalidEmbed
      | Some r \<Rightarrow>
          (case uploads (filename r) of
             None \<Rightarrow> Answered InvalidEmbed
           | Some bytes \<Rightarrow>
               (let fileSize = int (length bytes);
                    res = \<lparr>status_code = 200, accept_ranges = Some ''bytes'',
                           content_type = Some (contentType mime_lookup r),
                           content_range = None, content_length = None, body = []\<rparr>
                in if hdr \<noteq> None \<and> truthy (the hdr) then
                     (let start = range_start_double (the hdr);
                          fin = range_end_double (the hdr) fileSize
                      in if start = None \<or> fin = None \<or> exceeds (the start) (the fin) then
                           Answered (Media (res\<lparr>status_code := 416,
                                        content_range := Some (''bytes */'' @ show_int fileSize)\<rparr>))
                         else
                           (case createReadStream_checked bytes (the start) (the fin) of
                              None \<Rightarrow> Status500
                            | Some chunk \<Rightarrow>
                                (let partial = res\<lparr>status_code := 206,
                                       content_range :=
                                         Some (''bytes '' @ show_number (the start) @ ''-''
                                               @ show_number (the fin) @ ''/'' @ show_int fileSize),
                                       body := chunk\<rparr>
                                 in case (the start, the fin) of
                                      (Finite s, Finite e) \<Rightarrow>
                                        Answered (Media (partial\<lparr>content_length := Some (e - s + 1)\<rparr>))
                                    | (s, e) \<Rightarrow> Endless partial)))
                   else Answered (Media (res\<lparr>content_length := Some fileSize, body := bytes\<rparr>)))))"

text \<open>The words of the claims about a header, to compare with what the handler reads: the
  text of the start bound is what stands before the first dash, once the first \<open>bytes=\<close>
  is taken out of the value; the text of the end bound is what stands between the first
  dash and the second (empty when there is no dash); the digits of a bound are the decimal
  digits its text begins with, after white space and one sign; and the value of a bound is
  the double of the integer these digits name.\<close>

definition start_text :: "string \<Rightarrow> string" where
  "start_text hdr = takeWhile (\<lambda>c. c \<noteq> CHR ''-'') (replace_bytes hdr)"

definition end_text :: "string \<Rightarrow> string" where
  "end_text hdr =
     takeWhile (\<lambda>c. c \<noteq> CHR ''-'')
       (drop 1 (dropWhile (\<lambda>c. c \<noteq> CHR ''-'') (replace_bytes hdr)))"

definition leading_digits :: "string \<Rightarrow> string" where
  "leading_digits s =
     takeWhile is_digit
       (case dropWhile is_space s of
          [] \<Rightarrow> []
        | c # cs \<Rightarrow> if c = CHR ''+'' \<or> c = CHR ''-'' then cs else c # cs)"

definition bound_value :: "string \<Rightarrow> number" where
  "bound_value s = to_double (digits_value (leading_digits s))"

section \<open>\<open>POST /upload\<close>\<close>

record upload_file =
  originalname :: string
  tmp_filename :: string
  mimetype :: string

text \<open>The handler answers 400 without a file and 200 with the stored record; an exception
  that no \<open>catch\<close> takes leaves the request without an answer.\<close>

datatype upload_outcome = NoFileUploaded | Uploaded media_record | Crashed string

definition supportedExts :: "string list" where
  "supportedExts = [''.mp4'', ''.mov'', ''.webm'']"

definition queued_job :: job where
  "queued_job = \<lparr>status = Queued, progress = 0, message = ''queued'', startedAt = None,
     elapsed = None, eta = EtaUnset, timemark = None\<rparr>"

text \<open>Scheduling in \<open>src/unnamed/part_000\<close>:
  \<open>transcodeJobs[id] = transcodeJobs[id] || {status: 'queued', ...}\<close> keeps an entry
  that is there, then the background task runs up to its \<open>await\<close>: two writes to the job,
  each followed by a broadcast, and the call of \<open>transcodeToMp4\<close>, which reads the size
  of the input and the clock.\<close>

definition schedule_transcode :: "string \<Rightarrow> string \<Rightarrow> int \<Rightarrow> world \<Rightarrow> task \<times> world" where
  "schedule_transcode ident finalName now w =
     (let w1 = w\<lparr>transcodeJobs := (transcodeJobs w)
                  (ident \<mapsto> (case transcodeJobs w ident of None \<Rightarrow> queued_job | Some j \<Rightarrow> j))\<rparr>;
          w2 = broadcastStatus ident
                 (update_job ident (\<lambda>j. j\<lparr>status := Running, message := ''starting''\<rparr>) w1);
          w3 = broadcastStatus ident
                 (update_job ident (\<lambda>j. j\<lparr>message := ''remux/re-encode (simple)''\<rparr>) w2)
      in (\<lparr>jobId = ident, inputPath = finalName, outputPath = ident @ ''.mp4'',
           inputSize = (case files w3 finalName of None \<Rightarrow> 0 | Some b \<Rightarrow> int (length b)),
           startTime = now, polling = False, settled = False\<rparr>, w3))"

text \<open>Scheduling in \<open>src/main.js\<close>: the entry is overwritten with a queued job, and the
  task sets it running before its \<open>await\<close>.\<close>

definition main_schedule_transcode :: "string \<Rightarrow> string \<Rightarrow> int \<Rightarrow> world \<Rightarrow> task \<times> world" where
  "main_schedule_transcode ident finalName now w =
     (let w1 = w\<lparr>transcodeJobs := (transcodeJobs w)(ident \<mapsto> queued_job)\<rparr>;
          w2 = update_job ident (\<lambda>j. j\<lparr>status := Running, message := ''starting''\<rparr>) w1
      in (\<lparr>jobId = ident, inputPath = finalName, outputPath = ident @ ''.mp4'',
           inputSize = 0, startTime = now, polling = False, settled = False\<rparr>, w2))"

text \<open>The handler, the same in both files but for the scheduling. \<open>ident\<close> is the value
  of \<open>uuidv4()\<close>, \<open>now\<close> the clock. The temporary file of the upload is moved to
  \<open>id + ext\<close>; a file whose extension is not supported gets its transcode task; the
  record is written with \<open>converted: false\<close>.\<close>

definition upload_with ::
  "(string \<Rightarrow> string \<Rightarrow> int \<Rightarrow> world \<Rightarrow> task \<times> world) \<Rightarrow> libs \<Rightarrow> string \<Rightarrow> int
     \<Rightarrow> upload_file option \<Rightarrow> world \<Rightarrow> upload_outcome \<times> task option \<times> world" where
  "upload_with schedule lb ident now file w =
     (case file of
        None \<Rightarrow> (NoFileUploaded, None, w)
      | Some f \<Rightarrow>
          (let finalExt = toLowerCase lb (extname lb (originalname f));
               finalName = ident @ finalExt
           in case files w (tmp_filename f) of
                None \<Rightarrow> (Crashed ''ENOENT: no such file or directory, copyfile'', None, w)
              | Some bytes \<Rightarrow>
                  (let w1 = w\<lparr>files := ((files w)(tmp_filename f := None))(finalName \<mapsto> bytes)\<rparr>;
                       started = (if finalExt \<notin> set supportedExts
                                  then Some (schedule ident finalName now w1) else None);
                       w2 = (case started of None \<Rightarrow> w1 | Some (t, w') \<Rightarrow> w');
                       r = \<lparr>id_m = ident, filename = finalName, originalName = originalname f,
                            mime = (case lookup lb finalName of
                                      Some m \<Rightarrow> m
                                    | None \<Rightarrow> if truthy (mimetype f) then mimetype f
                                              else ''application/octet-stream''),
                            size_m = int (length bytes), createdAt = now, converted = False\<rparr>
                   in case writeData ((readData w2)(ident \<mapsto> r)) w2 of
                        Inl (msg, w3) \<Rightarrow> (Crashed msg, map_option fst started, w3)
                      | Inr w3 \<Rightarrow> (Uploaded r, map_option fst started, w3))))"

definition upload ::
  "libs \<Rightarrow> string \<Rightarrow> int \<Rightarrow> upload_file option \<Rightarrow> world
     \<Rightarrow> upload_outcome \<times> task option \<times> world" where
  "upload = upload_with schedule_transcode"

definition main_upload ::
  "libs \<Rightarrow> string \<Rightarrow> int \<Rightarrow> upload_file option \<Rightarrow> world
     \<Rightarrow> upload_outcome \<times> task option \<times> world" where
  "main_upload = upload_with main_schedule_transcode"

section \<open>The order of the job statuses\<close>

text \<open>\<open>queued\<close> comes before \<open>running\<close>, which comes before the two final statuses; a
  status may be followed by itself or by a later one. The statuses a client was shown for
  an identifier are read off the record of observations, in the order they were made;
  a message whose \<open>send\<close> threw counts all the same.\<close>

fun rank :: "job_status \<Rightarrow> nat" where
  "rank Queued = 0"
| "rank Running = 1"
| "rank Done = 2"
| "rank Error = 2"

definition forward :: "job_status \<Rightarrow> job_status \<Rightarrow> bool" where
  "forward s s' = (s = s' \<or> rank s < rank s')"

fun view_status :: "job_view \<Rightarrow> job_status list" where
  "view_status NoJob = []"
| "view_status (Job j) = [status j]"
| "view_status Inherited = []"

fun obs_status :: "string \<Rightarrow> observation \<Rightarrow> job_status list" where
  "obs_status ident (Sent ws i v) = (if i = ident then view_status v else [])"
| "obs_status ident (SendThrew ws i v) = (if i = ident then view_status v else [])"
| "obs_status ident (Polled i v) = (if i = ident then view_status v else [])"

definition status_trace :: "string \<Rightarrow> observation list \<Rightarrow> job_status list" where
  "status_trace ident obs = concat (map (obs_status ident) obs)"

text \<open>The messages one call of \<open>broadcastStatus\<close> hands to \<open>ws.send\<close>.\<close>

definition broadcast_msgs :: "string \<Rightarrow> world \<Rightarrow> observation list" where
  "broadcast_msgs ident w =
     (case subscribers w ident of
        None \<Rightarrow> []
      | Some conns \<Rightarrow>
          map (send_result w ident (job_view_of w ident))
            (filter (\<lambda>ws. readyState w ws = OPEN) conns))"

text \<open>A world agrees with a status \<open>s\<close> of an identifier when the job has that status,
  the statuses shown so far are in order, and each of them may be followed by \<open>s\<close>.
  The state of a task and the world are as they should be for an identifier when the task
  is the identifier's and the job is running until the promise settles and final from then
  on.\<close>

definition consistent :: "string \<Rightarrow> job_status \<Rightarrow> world \<Rightarrow> bool" where
  "consistent ident s w =
     ((\<exists>j. transcodeJobs w ident = Some j \<and> status j = s)
      \<and> sorted_wrt forward (status_trace ident (observed w))
      \<and> list_all (\<lambda>x. forward x s) (status_trace ident (observed w)))"

definition task_inv :: "string \<Rightarrow> task \<times> world \<Rightarrow> bool" where
  "task_inv ident tw =
     (jobId (fst tw) = ident
      \<and> (if settled (fst tw)
          then consistent ident Done (snd tw) \<or> consistent ident Error (snd tw)
          else consistent ident Running (snd tw)))"

section \<open>Concrete inputs\<close>

text \<open>Library functions for the concrete instances: the extension is the name from its
  first dot on, names are taken to be in lower case already, \<open>mime.lookup\<close> knows
  \<open>.mp4\<close>, and the arithmetic is that of doubles.\<close>

definition sample_libs :: libs where
  "sample_libs = \<lparr>extname = dropWhile (\<lambda>c. c \<noteq> CHR ''.''), toLowerCase = (\<lambda>s. s),
     lookup = (\<lambda>name. if dropWhile (\<lambda>c. c \<noteq> CHR ''.'') name = ''.mp4''
                       then Some ''video/mp4'' else None),
     fl = binary64\<rparr>"

definition avi_upload :: upload_file where
  "avi_upload = \<lparr>originalname = ''clip.avi'', tmp_filename = ''tmp1'',
     mimetype = ''video/x-msvideo''\<rparr>"

text \<open>A world in which the temporary file of an upload waits and connection 7 is subscribed
  to the identifier \<open>a\<close>; and one in which \<open>a\<close> already has a running job.\<close>

definition upload_world :: world where
  "upload_world = empty_world\<lparr>files := [''tmp1'' \<mapsto> [1, 2, 3, 4]],
     subscribers := [''a'' \<mapsto> [7]], subscribedId := [7 \<mapsto> ''a'']\<rparr>"

definition running_job :: job where
  "running_job = \<lparr>status = Running, progress = 40, message = ''remuxing (copying)'',
     startedAt = Some 1000, elapsed = Some 2, eta = Eta 3, timemark = None\<rparr>"

definition busy_world :: world where
  "busy_world = upload_world\<lparr>transcodeJobs := [''a'' \<mapsto> running_job]\<rparr>"

text \<open>A task that polls, with an input of four bytes of which two are written.\<close>

definition polling_task :: task where
  "polling_task = \<lparr>jobId = ''a'', inputPath = ''a.avi'', outputPath = ''a.mp4'',
     inputSize = 4, startTime = 5000, polling = True, settled = False\<rparr>"

definition polling_world :: world where
  "polling_world = busy_world\<lparr>files := [''a.avi'' \<mapsto> [1, 2, 3, 4], ''a.mp4'' \<mapsto> [1, 2]]\<rparr>"

text \<open>The same task with an input of 40 bytes of which 23 are written.\<close>

definition wide_task :: task where
  "wide_task = polling_task\<lparr>inputSize := 40\<rparr>"

definition wide_world :: world where
  "wide_world = busy_world\<lparr>files := [''a.avi'' \<mapsto> replicate 40 1, ''a.mp4'' \<mapsto> replicate 23 1]\<rparr>"

text \<open>The world of that task once the upload is registered: the record of \<open>a\<close> names the
  uploaded file.\<close>

definition avi_record :: media_record where
  "avi_record = \<lparr>id_m = ''a'', filename = ''a.avi'', originalName = ''clip.avi'',
     mime = ''video/x-msvideo'', size_m = 4, createdAt = 5000, converted = False\<rparr>"

definition converting_world :: world where
  "converting_world = polling_world\<lparr>data_json := Some [''a'' \<mapsto> avi_record]\<rparr>"

text \<open>That world at a moment when \<open>data.json\<close> cannot be written.\<close>

definition unwritable_world :: world where
  "unwritable_world = converting_world\<lparr>data_writable := False\<rparr>"

text \<open>A run of events for the task of an upload: a poll, the start, output and a timer
  tick, a second subscriber, the end, a poll, and a stray late error.\<close>

definition sample_events :: "event list" where
  "sample_events = [GetStatus, FfStart 5001, OutputWritten [1, 2], Tick 5800,
     WsMessage 8 (Data ''subscribe'' ''a''), FfEnd 6000, GetStatus, FfError ''late'']"

definition main_events :: "event list" where
  "main_events = [GetStatus, FfStart 5001, FfProgress (Some (25 / 2)) None,
     OutputWritten [1, 2], GetStatus, FfEnd 6000, GetStatus]"

text \<open>The upload of \<open>clip.avi\<close> under the identifier \<open>a\<close>, by either server, and the
  task it starts.\<close>

definition started :: "upload_outcome \<times> task option \<times> world" where
  "started = upload sample_libs ''a'' 5000 (Some avi_upload) upload_world"

definition main_started :: "upload_outcome \<times> task option \<times> world" where
  "main_started = main_upload sample_libs ''a'' 5000 (Some avi_upload) upload_world"

definition started_task :: task where
  "started_task = \<lparr>jobId = ''a'', inputPath = ''a.avi'', outputPath = ''a.mp4'',
     inputSize = 4, startTime = 5000, polling = False, settled = False\<rparr>"

definition main_started_task :: task where
  "main_started_task = started_task\<lparr>inputSize := 0\<rparr>"

text \<open>The world of the \<open>src/main.js\<close> task after the encoder started and wrote its
  output, at a moment when \<open>data.json\<close> cannot be written.\<close>

definition main_failing_world :: world where
  "main_failing_world =
     (snd (main_run sample_libs [FfStart 5001, OutputWritten [1, 2]]
             (main_started_task, snd (snd main_started))))\<lparr>data_writable := False\<rparr>"

section \<open>Decimal rendering and \<open>parseInt\<close>\<close>

declare show_nat.simps [simp del]

lemma digit_char_cases:
  assumes "d < 10"
  shows "digit_char d \<in> set ''0123456789'' \<and> digit_val (digit_char d) = int d"
proof -
  from assms have "d \<in> {0, 1, 2, 3, 4, 5, 6, 7, 8, 9}" by auto
  then show ?thesis
    by (auto simp: digit_char_def digit_val_def)
qed

lemma is_digit_digit_char: "d < 10 \<Longrightarrow> is_digit (digit_char d)"
  using digit_char_cases by (simp add: is_digit_def)

lemma digit_val_digit_char: "d < 10 \<Longrightarrow> digit_val (digit_char d) = int d"
  using digit_char_cases by simp

lemma is_digit_not_space: "is_digit c \<Longrightarrow> \<not> is_space c"
  by (auto simp: is_digit_def is_space_def)

lemma is_digit_not_sign: "is_digit c \<Longrightarrow> c \<noteq> CHR ''-'' \<and> c \<noteq> CHR ''+''"
  by (auto simp: is_digit_def)

lemma show_nat_digits: "list_all is_digit (show_nat n)"
proof (induction n rule: show_nat.induct)
  case (1 n)
  show ?case
  proof (cases "n < 10")
    case True
    then show ?thesis
      by (simp add: show_nat.simps [of n] is_digit_digit_char)
  next
    case False
    with "1" have "list_all is_digit (show_nat (n div 10))" by simp
    with False show ?thesis
      by (simp add: show_nat.simps [of n] is_digit_digit_char)
  qed
qed

lemma show_nat_nonempty: "show_nat n \<noteq> []"
  by (simp add: show_nat.simps [of n])

lemma show_nat_no_dash: "CHR ''-'' \<notin> set (show_nat n)"
  using show_nat_digits [of n] is_digit_not_sign
  by (auto simp: list_all_iff)

lemma digits_value_snoc: "digits_value (ds @ [c]) = digits_value ds * 10 + digit_val c"
  by (simp add: digits_value_def)

lemma digits_value_show_nat: "digits_value (show_nat n) = int n"
proof (induction n rule: show_nat.induct)
  case (1 n)
  show ?case
  proof (cases "n < 10")
    case True
    then show ?thesis
      by (simp add: show_nat.simps [of n] digits_value_def digit_val_digit_char)
  next
    case False
    with "1" have "digits_value (show_nat (n div 10)) = int (n div 10)" by simp
    with False show ?thesis
      by (simp add: show_nat.simps [of n] digits_value_snoc digit_val_digit_char zdiv_int zmod_int)
  qed
qed

lemma parseInt_digits:
  assumes "list_all is_digit ds" and "ds \<noteq> []"
  shows "parseInt ds = Some (digits_value ds)"
proof -
  from assms obtain c cs where ds: "ds = c # cs" by (cases ds) auto
  with assms have c: "is_digit c" by simp
  then have "dropWhile is_space ds = ds"
    using ds is_digit_not_space by simp
  moreover have "takeWhile is_digit ds = ds"
    using assms(1) by (simp add: list_all_iff)
  ultimately show ?thesis
    using ds is_digit_not_sign [OF c] by (simp add: parseInt_def)
qed

lemma parseInt_show_nat: "parseInt (show_nat n) = Some (int n)"
  by (simp add: parseInt_digits show_nat_digits show_nat_nonempty digits_value_show_nat)

lemma show_int_of_nat: "show_int (int n) = show_nat n"
  by (simp add: show_int_def)

text \<open>A part of the split never holds a dash, so \<open>parseInt\<close> reads no sign there and a
  bound that parses is a non-negative integer.\<close>

lemma digits_value_nonneg: "list_all is_digit ds \<Longrightarrow> 0 \<le> digits_value ds"
proof (induction ds rule: rev_induct)
  case Nil
  then show ?case by (simp add: digits_value_def)
next
  case (snoc c ds)
  then have "0 \<le> digits_value ds" and "is_digit c" by simp_all
  moreover from \<open>is_digit c\<close> have "0 \<le> digit_val c"
    by (auto simp: is_digit_def digit_val_def)
  ultimately show ?case by (simp add: digits_value_snoc)
qed

lemma parseInt_no_dash_nonneg:
  assumes "CHR ''-'' \<notin> set s" and "parseInt s = Some v"
  shows "0 \<le> v"
proof -
  let ?t = "dropWhile is_space s"
  let ?u = "if ?t \<noteq> [] \<and> (hd ?t = CHR ''-'' \<or> hd ?t = CHR ''+'') then tl ?t else ?t"
  have noneg: "\<not> (?t \<noteq> [] \<and> hd ?t = CHR ''-'')"
  proof
    assume a: "?t \<noteq> [] \<and> hd ?t = CHR ''-''"
    then have "hd ?t \<in> set ?t" by (intro hd_in_set) (rule conjunct1)
    then have "hd ?t \<in> set s" by (rule set_dropWhileD)
    with a assms(1) show False by simp
  qed
  have "list_all is_digit (takeWhile is_digit ?u)"
    by (simp add: list_all_iff) (meson set_takeWhileD)
  then have "0 \<le> digits_value (takeWhile is_digit ?u)" by (rule digits_value_nonneg)
  with assms(2) noneg show ?thesis
    by (auto simp: parseInt_def Let_def split: if_splits)
qed

lemma split_dash_nonempty: "split_dash s \<noteq> []"
  by (induction s) (auto split: list.splits)

lemma split_dash_no_dash: "p \<in> set (split_dash s) \<Longrightarrow> CHR ''-'' \<notin> set p"
proof (induction s arbitrary: p)
  case Nil
  then show ?case by simp
next
  case (Cons c cs)
  show ?case
  proof (cases "c = CHR ''-''")
    case True
    with Cons show ?thesis by auto
  next
    case False
    obtain q qs where q: "split_dash cs = q # qs"
      using split_dash_nonempty [of cs] by (cases "split_dash cs") auto
    with False Cons.prems have "p = c # q \<or> p \<in> set qs" by auto
    then show ?thesis
      using Cons.IH q False by auto
  qed
qed

lemma split_dash_plain: "CHR ''-'' \<notin> set s \<Longrightarrow> split_dash s = [s]"
  by (induction s) auto

lemma split_dash_append:
  "CHR ''-'' \<notin> set a \<Longrightarrow> split_dash (a @ CHR ''-'' # rest) = a # split_dash rest"
  by (induction a) auto

section \<open>Error and exactness of the rounding to a double\<close>

lemma pow2_powi: "pow2 k = 2 powi k"
  by (simp add: pow2_def power_int_def inverse_eq_divide power_one_over)

lemma pow2_pos: "0 < pow2 k"
  by (simp add: pow2_powi)

lemma round_half_even_error: "\<bar>of_int (round_half_even y) - y\<bar> \<le> 1 / 2"
proof -
  define r where "r = y - of_int \<lfloor>y\<rfloor>"
  have r: "0 \<le> r" "r < 1" unfolding r_def by linarith+
  have y: "y = of_int \<lfloor>y\<rfloor> + r" by (simp add: r_def)
  consider "r < 1 / 2" | "1 / 2 < r" | "r = 1 / 2" by linarith
  then show ?thesis
  proof cases
    case 1
    then have "round_half_even y = \<lfloor>y\<rfloor>"
      by (simp add: round_half_even_def Let_def r_def)
    with 1 r show ?thesis by (simp add: r_def)
  next
    case 2
    then have "round_half_even y = \<lfloor>y\<rfloor> + 1"
      by (simp add: round_half_even_def Let_def r_def)
    with 2 r show ?thesis by (simp add: r_def)
  next
    case 3
    then have "round_half_even y = \<lfloor>y\<rfloor> \<or> round_half_even y = \<lfloor>y\<rfloor> + 1"
      by (simp add: round_half_even_def Let_def r_def)
    with 3 show ?thesis by (auto simp: r_def)
  qed
qed

lemma round_half_even_of_int: "round_half_even (of_int n) = n"
  by (simp add: round_half_even_def)

lemma round_half_even_nonneg: "0 \<le> y \<Longrightarrow> 0 \<le> round_half_even y"
proof -
  assume "0 \<le> y"
  then have "0 \<le> \<lfloor>y\<rfloor>" by simp
  then show ?thesis
    by (auto simp: round_half_even_def Let_def)
qed

lemma exponent_of_le:
  assumes "0 < a"
  shows "pow2 (exponent_of a) \<le> a"
proof -
  obtain p q where pq: "quotient_of a = (p, q)" by (cases "quotient_of a")
  then have q: "0 < q" by (rule quotient_of_denom_pos)
  from pq have a: "a = of_int p / of_int q" by (rule quotient_of_div)
  with assms q have p: "0 < p" by (simp add: zero_less_divide_iff)
  let ?d = "bitlen p - bitlen q"
  show ?thesis
  proof (cases "a < pow2 ?d")
    case False
    then show ?thesis by (simp add: exponent_of_def pq)
  next
    case True
    from bitlen_bounds [OF p] have lp: "2 ^ nat (bitlen p - 1) \<le> p" by simp
    from bitlen_bounds [OF q] have uq: "q < 2 ^ nat (bitlen q)" by simp
    have bp: "0 < bitlen p"
    proof (rule ccontr)
      assume "\<not> 0 < bitlen p"
      then have "nat (bitlen p) = 0" by simp
      with bitlen_bounds [OF p] p show False by simp
    qed
    have bq: "0 < bitlen q"
    proof (rule ccontr)
      assume "\<not> 0 < bitlen q"
      then have "nat (bitlen q) = 0" by simp
      with uq q show False by simp
    qed
    have "(2::rat) powi (bitlen p - 1) = 2 ^ nat (bitlen p - 1)"
      using bp by (simp add: power_int_def)
    also have "\<dots> \<le> of_int p" using lp by (metis of_int_le_iff of_int_numeral of_int_power)
    finally have 1: "(2::rat) powi (bitlen p - 1) \<le> of_int p" .
    have "(of_int q :: rat) < 2 ^ nat (bitlen q)" using uq by (metis of_int_less_iff of_int_numeral of_int_power)
    also have "\<dots> = 2 powi (bitlen q)" using bq by (simp add: power_int_def)
    finally have 2: "(of_int q :: rat) < 2 powi (bitlen q)" .
    have "(2::rat) powi (bitlen p - 1 - bitlen q) = 2 powi (bitlen p - 1) / 2 powi (bitlen q)"
      by (rule power_int_diff) simp
    moreover have "?d - 1 = bitlen p - 1 - bitlen q" by simp
    ultimately have "pow2 (?d - 1) = 2 powi (bitlen p - 1) / 2 powi (bitlen q)"
      by (simp only: pow2_powi)
    also have "\<dots> \<le> of_int p / 2 powi (bitlen q)"
      using 1 by (simp add: divide_right_mono)
    also have "\<dots> \<le> of_int p / of_int q"
      using 2 p q by (intro divide_left_mono) simp_all
    finally have "pow2 (?d - 1) \<le> a" by (simp only: a)
    moreover have "exponent_of a = ?d - 1"
      using True by (simp add: exponent_of_def pq)
    ultimately show ?thesis by simp
  qed
qed

lemma binary64_error: "\<bar>binary64 x - x\<bar> \<le> \<bar>x\<bar> / 2 ^ 53"
proof (cases "x = 0")
  case True
  then show ?thesis by (simp add: binary64_def)
next
  case False
  let ?a = "\<bar>x\<bar>"
  let ?ulp = "pow2 (exponent_of ?a - 52)"
  let ?m = "round_half_even (?a / ?ulp)"
  have a: "0 < ?a" using False by simp
  have u: "0 < ?ulp" by (rule pow2_pos)
  have "of_int ?m * ?ulp - ?a = (of_int ?m - ?a / ?ulp) * ?ulp"
    using u by (simp add: left_diff_distrib)
  then have "\<bar>of_int ?m * ?ulp - ?a\<bar> = \<bar>of_int ?m - ?a / ?ulp\<bar> * ?ulp"
    using u by (simp only: abs_mult) simp
  also have "\<dots> \<le> 1 / 2 * ?ulp"
    using round_half_even_error u by (intro mult_right_mono) simp_all
  also have "\<dots> = pow2 (exponent_of ?a) / 2 ^ 53"
  proof -
    have "(2::rat) powi (exponent_of ?a - 53) = 2 powi (exponent_of ?a) / 2 powi 53"
      by (rule power_int_diff) simp
    moreover have "(2::rat) powi (exponent_of ?a - 52) = 2 powi (exponent_of ?a) / 2 powi 52"
      by (rule power_int_diff) simp
    ultimately show ?thesis by (simp add: pow2_powi)
  qed
  also have "\<dots> \<le> ?a / 2 ^ 53"
    using exponent_of_le [OF a] by (simp add: divide_right_mono)
  finally have e: "\<bar>of_int ?m * ?ulp - ?a\<bar> \<le> ?a / 2 ^ 53" .
  show ?thesis
  proof (cases "x < 0")
    case True
    then have "binary64 x - x = - (of_int ?m * ?ulp - ?a)"
      by (simp add: binary64_def Let_def)
    with e show ?thesis by (simp only: abs_minus_cancel)
  next
    case pos: False
    with False have "binary64 x - x = of_int ?m * ?ulp - ?a"
      by (simp add: binary64_def Let_def)
    with e show ?thesis by simp
  qed
qed

lemma binary64_nonneg: "0 \<le> x \<Longrightarrow> 0 \<le> binary64 x"
  using pow2_pos [of "exponent_of \<bar>x\<bar> - 52"] round_half_even_nonneg [of "\<bar>x\<bar> / pow2 (exponent_of \<bar>x\<bar> - 52)"]
  by (simp add: binary64_def Let_def)

lemma exponent_of_less:
  assumes "0 < a"
  shows "a < pow2 (exponent_of a + 1)"
proof -
  obtain p q where pq: "quotient_of a = (p, q)" by (cases "quotient_of a")
  then have q: "0 < q" by (rule quotient_of_denom_pos)
  from pq have a: "a = of_int p / of_int q" by (rule quotient_of_div)
  with assms q have p: "0 < p" by (simp add: zero_less_divide_iff)
  let ?d = "bitlen p - bitlen q"
  show ?thesis
  proof (cases "a < pow2 ?d")
    case True
    then show ?thesis by (simp add: exponent_of_def pq)
  next
    case False
    from bitlen_bounds [OF p] have up: "p < 2 ^ nat (bitlen p)" by simp
    from bitlen_bounds [OF q] have lq: "2 ^ nat (bitlen q - 1) \<le> q" by simp
    have bp: "0 \<le> bitlen p" by (rule bitlen_nonneg)
    have bq: "0 < bitlen q"
    proof (rule ccontr)
      assume "\<not> 0 < bitlen q"
      then have "nat (bitlen q) = 0" by simp
      with bitlen_bounds [OF q] q show False by simp
    qed
    have "(of_int p :: rat) < 2 ^ nat (bitlen p)"
      using up by (metis of_int_less_iff of_int_numeral of_int_power)
    also have "\<dots> = 2 powi (bitlen p)" using bp by (simp add: power_int_def)
    finally have 1: "(of_int p :: rat) < 2 powi (bitlen p)" .
    have "(2::rat) powi (bitlen q - 1) = 2 ^ nat (bitlen q - 1)"
      using bq by (simp add: power_int_def)
    also have "\<dots> \<le> of_int q" using lq by (metis of_int_le_iff of_int_numeral of_int_power)
    finally have 2: "(2::rat) powi (bitlen q - 1) \<le> of_int q" .
    have 3: "(0::rat) < 2 powi (bitlen q - 1)" by simp
    have "of_int p / of_int q \<le> of_int p / (2::rat) powi (bitlen q - 1)"
      using 2 3 p q by (intro divide_left_mono mult_pos_pos) simp_all
    also have "\<dots> < 2 powi (bitlen p) / 2 powi (bitlen q - 1)"
      using 1 3 by (simp add: divide_strict_right_mono)
    also have "\<dots> = 2 powi (bitlen p - (bitlen q - 1))"
      by (rule power_int_diff [symmetric]) simp
    also have "bitlen p - (bitlen q - 1) = ?d + 1" by simp
    finally have "a < pow2 (?d + 1)" by (simp only: a pow2_powi)
    moreover have "exponent_of a = ?d"
      using False by (simp add: exponent_of_def pq)
    ultimately show ?thesis by simp
  qed
qed

text \<open>So the value that \<open>binary64\<close> rounds to an integer, the significand, has 53 binary
  digits: it lies from \<open>2^52\<close> to \<open>2^53\<close>.\<close>

lemma significand_bounds:
  assumes "0 < a"
  shows "2 ^ 52 \<le> a / pow2 (exponent_of a - 52)"
    and "a / pow2 (exponent_of a - 52) < 2 ^ 53"
proof -
  let ?e = "exponent_of a"
  have u: "pow2 (?e - 52) = pow2 ?e / 2 ^ 52"
  proof -
    have "(2::rat) powi (?e - 52) = 2 powi ?e / 2 powi 52"
      by (rule power_int_diff) simp
    then show ?thesis by (simp add: pow2_powi)
  qed
  have v: "pow2 (?e + 1) = pow2 ?e * 2"
  proof -
    have "(2::rat) powi (?e + 1) = 2 powi ?e * 2 powi 1"
      by (rule power_int_add) simp
    then show ?thesis by (simp add: pow2_powi)
  qed
  have p: "0 < pow2 ?e" by (rule pow2_pos)
  define m where "m = a / pow2 ?e"
  have "a / pow2 (?e - 52) = m * 2 ^ 52" by (simp add: u m_def)
  moreover have "1 \<le> m"
    unfolding m_def using exponent_of_le [OF assms] p by (simp add: le_divide_eq)
  moreover have "m < 2"
    unfolding m_def using exponent_of_less [OF assms] p by (simp add: v divide_less_eq)
  ultimately show "2 ^ 52 \<le> a / pow2 (?e - 52)" and "a / pow2 (?e - 52) < 2 ^ 53"
    by simp_all
qed

lemma pow2_mono: "a \<le> b \<Longrightarrow> pow2 a \<le> pow2 b"
  by (simp add: pow2_powi power_int_increasing)

lemma binary64_int_exact:
  assumes "\<bar>v\<bar> \<le> 2 ^ 53"
  shows "binary64 (of_int v) = of_int v"
proof (cases "v = 0")
  case True
  then show ?thesis by (simp add: binary64_def)
next
  case False
  let ?a = "\<bar>of_int v :: rat\<bar>"
  let ?e = "exponent_of ?a"
  let ?ulp = "pow2 (?e - 52)"
  have a: "0 < ?a" using False by simp
  have av: "?a = of_int \<bar>v\<bar>" by simp
  have le: "pow2 ?e \<le> ?a" by (rule exponent_of_le [OF a])
  have "?a \<le> 2 ^ 53" using assms by (simp only: av) (metis of_int_le_iff of_int_numeral of_int_power)
  with le have p: "pow2 ?e \<le> 2 ^ 53" by simp
  have e53: "?e \<le> 53"
  proof (rule ccontr)
    assume "\<not> ?e \<le> 53"
    then have "54 \<le> ?e" by simp
    then have "pow2 54 \<le> pow2 ?e" by (rule pow2_mono)
    with p show False by (simp add: pow2_def)
  qed
  have "\<exists>n. ?a / ?ulp = of_int n"
  proof (cases "?e \<le> 52")
    case True
    then have "?ulp = 1 / 2 ^ nat (52 - ?e)"
      by (auto simp: pow2_def)
    then have "?a / ?ulp = of_int (\<bar>v\<bar> * 2 ^ nat (52 - ?e))"
      by (simp add: av del: of_int_abs)
    then show ?thesis by blast
  next
    case False
    with e53 have e: "?e = 53" by simp
    then have "pow2 ?e = 2 ^ 53" by (simp add: pow2_def)
    with le \<open>?a \<le> 2 ^ 53\<close> have "?a = 2 ^ 53" by simp
    moreover have "?ulp = 2" using e by (simp add: pow2_def)
    ultimately have "?a / ?ulp = of_int (2 ^ 52)" by simp
    then show ?thesis by blast
  qed
  then obtain n where n: "?a / ?ulp = of_int n" by blast
  have u: "0 < ?ulp" by (rule pow2_pos)
  have "of_int (round_half_even (?a / ?ulp)) * ?ulp = ?a"
    using u by (simp only: n round_half_even_of_int) (simp add: n [symmetric])
  then show ?thesis
    using False by (simp add: binary64_def Let_def abs_if split: if_splits)
qed

text \<open>An integer up to \<open>2^53\<close> is its own double.\<close>

lemma to_double_safe:
  assumes "\<bar>v\<bar> \<le> 2 ^ 53"
  shows "to_double v = Finite v"
proof -
  have e: "binary64 (of_int v) = of_int v" using assms by (rule binary64_int_exact)
  have "v < 2 ^ nat 1024" using assms by simp
  then have "bitlen v \<le> 1024" by (simp only: bitlen_le_iff_power) simp
  then show ?thesis by (simp add: to_double_def e)
qed

text \<open>Half an integer up to \<open>2^53\<close> is a double as well.\<close>

lemma binary64_half_exact:
  assumes "\<bar>v\<bar> \<le> 2 ^ 53"
  shows "binary64 (of_int v / 2) = of_int v / 2"
proof (cases "v = 0")
  case True
  then show ?thesis by (simp add: binary64_def)
next
  case False
  let ?a = "\<bar>of_int v / 2 :: rat\<bar>"
  let ?e = "exponent_of ?a"
  let ?ulp = "pow2 (?e - 52)"
  have a: "0 < ?a" using False by simp
  have av: "?a = of_int \<bar>v\<bar> / 2" by simp
  have le: "pow2 ?e \<le> ?a" by (rule exponent_of_le [OF a])
  have "(of_int \<bar>v\<bar> :: rat) \<le> 2 ^ 53"
    using assms by (metis of_int_le_iff of_int_numeral of_int_power)
  then have up: "?a \<le> 2 ^ 52" by (simp only: av) simp
  with le have p: "pow2 ?e \<le> 2 ^ 52" by simp
  have e52: "?e \<le> 52"
  proof (rule ccontr)
    assume "\<not> ?e \<le> 52"
    then have "53 \<le> ?e" by simp
    then have "pow2 53 \<le> pow2 ?e" by (rule pow2_mono)
    with p show False by (simp add: pow2_def)
  qed
  have "\<exists>n. ?a / ?ulp = of_int n"
  proof (cases "?e \<le> 51")
    case True
    then have "?ulp = 1 / 2 ^ nat (52 - ?e)"
      by (auto simp: pow2_def)
    moreover from True have "nat (52 - ?e) = Suc (nat (51 - ?e))" by simp
    ultimately have "?a / ?ulp = of_int (\<bar>v\<bar> * 2 ^ nat (51 - ?e))"
      by (simp add: av del: of_int_abs)
    then show ?thesis by blast
  next
    case False
    with e52 have e: "?e = 52" by simp
    then have "pow2 ?e = 2 ^ 52" by (simp add: pow2_def)
    with le up have "?a = 2 ^ 52" by simp
    moreover have "?ulp = 1" using e by (simp add: pow2_def)
    ultimately have "?a / ?ulp = of_int (2 ^ 52)" by simp
    then show ?thesis by blast
  qed
  then obtain n where n: "?a / ?ulp = of_int n" by blast
  have u: "0 < ?ulp" by (rule pow2_pos)
  have m: "of_int (round_half_even (?a / ?ulp)) * ?ulp = ?a"
    using u by (simp only: n round_half_even_of_int) (simp add: n [symmetric])
  show ?thesis
  proof (cases "v < 0")
    case True
    then have "binary64 (of_int v / 2) = - ?a"
      using m by (simp add: binary64_def Let_def)
    with True show ?thesis by simp
  next
    case pos: False
    with False have "binary64 (of_int v / 2) = ?a"
      using m by (simp add: binary64_def Let_def)
    with pos show ?thesis by simp
  qed
qed

lemma binary64_nonpos:
  assumes "x \<le> 0"
  shows "binary64 x \<le> 0"
proof (cases "x = 0")
  case True
  then show ?thesis by (simp add: binary64_def)
next
  case False
  let ?ulp = "pow2 (exponent_of \<bar>x\<bar> - 52)"
  have u: "0 < ?ulp" by (rule pow2_pos)
  then have "0 \<le> \<bar>x\<bar> / ?ulp" by simp
  then have "0 \<le> round_half_even (\<bar>x\<bar> / ?ulp)" by (rule round_half_even_nonneg)
  then have "0 \<le> of_int (round_half_even (\<bar>x\<bar> / ?ulp)) * ?ulp"
    using u by simp
  moreover from False assms have "x < 0" by simp
  ultimately show ?thesis by (simp add: binary64_def Let_def)
qed

section \<open>Range requests\<close>

lemma range_start_decimal:
  "range_start (''bytes='' @ show_nat a @ ''-'' @ show_nat b) = Some (int a)"
proof -
  have "split_dash (show_nat a @ CHR ''-'' # show_nat b) = show_nat a # split_dash (show_nat b)"
    by (rule split_dash_append) (rule show_nat_no_dash)
  then show ?thesis
    by (simp add: range_start_def parseInt_show_nat)
qed

lemma range_end_decimal:
  "range_end (''bytes='' @ show_nat a @ ''-'' @ show_nat b) n = Some (int b)"
proof -
  have "split_dash (show_nat a @ CHR ''-'' # show_nat b) = [show_nat a, show_nat b]"
    by (simp add: split_dash_append split_dash_plain show_nat_no_dash)
  then show ?thesis
    by (simp add: range_end_def part_def truthy_def show_nat_nonempty parseInt_show_nat)
qed

lemma range_start_nonneg: "range_start hdr = Some s \<Longrightarrow> 0 \<le> s"
proof -
  assume a: "range_start hdr = Some s"
  have "hd (split_dash (replace_bytes hdr)) \<in> set (split_dash (replace_bytes hdr))"
    by (simp add: split_dash_nonempty)
  then have "CHR ''-'' \<notin> set (hd (split_dash (replace_bytes hdr)))"
    by (rule split_dash_no_dash)
  with a show ?thesis
    unfolding range_start_def by (rule parseInt_no_dash_nonneg [rotated])
qed

lemma take_drop_nth:
  "a + n \<le> length xs \<Longrightarrow> take n (drop a xs) = map ((!) xs) [a..<a + n]"
  by (simp add: list_eq_iff_nth_eq)

text \<open>Claim C1. For a stored record whose file is present and a header \<open>bytes=a-b\<close>
  with \<open>0 \<le> a \<le> b < size\<close>, the handler answers 206 with
  \<open>Content-Range: bytes a-b/size\<close>, \<open>Content-Length: b-a+1\<close>, and the body is the
  bytes of the file at the offsets \<open>a\<close> to \<open>b\<close>, of which there are \<open>b-a+1\<close>.\<close>

theorem get_v_range_satisfiable:
  assumes "d ident = Some r" and "uploads (filename r) = Some bytes"
    and "a \<le> b" and "b < length bytes"
  shows "get_v mime_lookup d uploads ident (Some (''bytes='' @ show_nat a @ ''-'' @ show_nat b)) =
           Media \<lparr>status_code = 206, accept_ranges = Some ''bytes'',
                  content_type = Some (contentType mime_lookup r),
                  content_range = Some (''bytes '' @ show_nat a @ ''-'' @ show_nat b
                                        @ ''/'' @ show_nat (length bytes)),
                  content_length = Some (int b - int a + 1),
                  body = map ((!) bytes) [a..<Suc b]\<rparr>
         \<and> length (map ((!) bytes) [a..<Suc b]) = b - a + 1"
proof -
  let ?h = "''bytes='' @ show_nat a @ ''-'' @ show_nat b"
  have s: "range_start ?h = Some (int a)" by (rule range_start_decimal)
  have e: "range_end ?h (int (length bytes)) = Some (int b)" by (rule range_end_decimal)
  have n: "nat (int b - int a + 1) = b - a + 1" using assms(3) by simp
  have "a + (b - a + 1) \<le> length bytes" using assms(3,4) by simp
  then have "take (b - a + 1) (drop a bytes) = map ((!) bytes) [a..<a + (b - a + 1)]"
    by (rule take_drop_nth)
  moreover have "a + (b - a + 1) = Suc b" using assms(3) by simp
  ultimately have b: "createReadStream bytes (int a) (int b) = map ((!) bytes) [a..<Suc b]"
    by (simp add: createReadStream_def n)
  have "truthy ?h" by (simp add: truthy_def)
  with assms s e b show ?thesis
    by (simp add: get_v_def Let_def show_int_of_nat)
qed

theorem get_v_range_satisfiable_witness:
  "get_v no_mime sample_data sample_files ''a'' (Some ''bytes=1-3'') =
     Media \<lparr>status_code = 206, accept_ranges = Some ''bytes'',
            content_type = Some ''video/mp4'', content_range = Some ''bytes 1-3/5'',
            content_length = Some 3, body = [11, 12, 13]\<rparr>"
proof -
  have r: "sample_data ''a'' = Some sample_record" by (simp add: sample_data_def)
  have f: "sample_files (filename sample_record) = Some [10, 11, 12, 13, 14]"
    by (simp add: sample_files_def sample_record_def)
  have ab: "(1::nat) \<le> 3" and b: "(3::nat) < length [10, 11, 12, 13, 14 :: byte]" by simp_all
  from get_v_range_satisfiable [where d = sample_data and ident = "''a''" and r = sample_record
      and uploads = sample_files and mime_lookup = no_mime, OF r f ab b]
  show ?thesis
    by (simp add: show_nat.simps contentType_def truthy_def sample_record_def upt_rec digit_char_def)
qed

lemma range_end_lower:
  assumes "range_end hdr n = Some e" and "0 \<le> n"
  shows "- 1 \<le> e"
proof (cases "part (split_dash (replace_bytes hdr)) 1")
  case None
  with assms show ?thesis by (simp add: range_end_def)
next
  case (Some p)
  show ?thesis
  proof (cases "truthy p")
    case False
    with Some assms show ?thesis by (simp add: range_end_def)
  next
    case True
    from Some have "p \<in> set (split_dash (replace_bytes hdr))"
      by (auto simp: part_def split: if_splits)
    then have "CHR ''-'' \<notin> set p" by (rule split_dash_no_dash)
    moreover from Some True assms(1) have "parseInt p = Some e" by (simp add: range_end_def)
    ultimately have "0 \<le> e" by (rule parseInt_no_dash_nonneg)
    then show ?thesis by simp
  qed
qed

section \<open>Range requests with the numbers of the source\<close>

lemma hd_split_dash: "hd (split_dash s) = takeWhile (\<lambda>c. c \<noteq> CHR ''-'') s"
proof (induction s)
  case Nil
  show ?case by simp
next
  case (Cons c cs)
  obtain p ps where p: "split_dash cs = p # ps"
    using split_dash_nonempty [of cs] by (cases "split_dash cs") auto
  with Cons show ?case by simp
qed

lemma part_split_dash_1:
  "part (split_dash s) 1 =
     (if CHR ''-'' \<in> set s
      then Some (takeWhile (\<lambda>c. c \<noteq> CHR ''-'') (drop 1 (dropWhile (\<lambda>c. c \<noteq> CHR ''-'') s)))
      else None)"
proof (induction s)
  case Nil
  show ?case by (simp add: part_def)
next
  case (Cons c cs)
  obtain p ps where p: "split_dash cs = p # ps"
    using split_dash_nonempty [of cs] by (cases "split_dash cs") auto
  show ?case
  proof (cases "c = CHR ''-''")
    case True
    have "part ([] # split_dash cs) 1 = Some (hd (split_dash cs))"
      by (simp add: part_def p)
    with True show ?thesis by (simp add: hd_split_dash)
  next
    case False
    have "part ((c # p) # ps) 1 = part (p # ps) 1" by (simp add: part_def)
    with False Cons p show ?thesis by simp
  qed
qed

lemma parseInt_leading_digits:
  assumes "CHR ''-'' \<notin> set s"
  shows "parseInt s =
           (if leading_digits s = [] then None else Some (digits_value (leading_digits s)))"
proof -
  define t where "t = dropWhile is_space s"
  have p: "parseInt s =
      (let neg = (t \<noteq> [] \<and> hd t = CHR ''-'');
           u = (if t \<noteq> [] \<and> (hd t = CHR ''-'' \<or> hd t = CHR ''+'') then tl t else t);
           ds = takeWhile is_digit u
       in if ds = [] then None
          else Some (if neg then - digits_value ds else digits_value ds))"
    by (simp only: parseInt_def t_def Let_def)
  have l: "leading_digits s =
      takeWhile is_digit
        (case t of [] \<Rightarrow> [] | c # cs \<Rightarrow> if c = CHR ''+'' \<or> c = CHR ''-'' then cs else c # cs)"
    by (simp only: leading_digits_def t_def)
  show ?thesis
  proof (cases t)
    case Nil
    then show ?thesis by (simp add: p l)
  next
    case (Cons c cs)
    then have "c \<in> set (dropWhile is_space s)" by (simp add: t_def)
    then have "c \<in> set s" by (rule set_dropWhileD)
    with assms have "c \<noteq> CHR ''-''" by auto
    with Cons show ?thesis by (simp add: p l)
  qed
qed

lemma start_text_no_dash: "CHR ''-'' \<notin> set (start_text hdr)"
  by (auto simp: start_text_def dest: set_takeWhileD)

lemma end_text_no_dash: "CHR ''-'' \<notin> set (end_text hdr)"
  by (auto simp: end_text_def dest: set_takeWhileD)

lemma range_start_double_text:
  "range_start_double hdr =
     (if leading_digits (start_text hdr) = [] then None
      else Some (bound_value (start_text hdr)))"
  using parseInt_leading_digits [OF start_text_no_dash, of hdr]
  by (simp add: range_start_double_def parseInt_double_def hd_split_dash start_text_def
      bound_value_def)

lemma range_end_double_text:
  "range_end_double hdr n =
     (if end_text hdr = [] then Some (Finite (n - 1))
      else if leading_digits (end_text hdr) = [] then None
      else Some (bound_value (end_text hdr)))"
proof (cases "CHR ''-'' \<in> set (replace_bytes hdr)")
  case False
  then have "dropWhile (\<lambda>c. c \<noteq> CHR ''-'') (replace_bytes hdr) = []"
    by (auto simp: dropWhile_eq_Nil_conv)
  then have "end_text hdr = []" by (simp only: end_text_def) simp
  moreover from False have "part (split_dash (replace_bytes hdr)) 1 = None"
    by (simp only: part_split_dash_1 if_False)
  ultimately show ?thesis by (simp add: range_end_double_def)
next
  case True
  then have "part (split_dash (replace_bytes hdr)) 1 = Some (end_text hdr)"
    by (simp only: part_split_dash_1 end_text_def if_True)
  then show ?thesis
    using parseInt_leading_digits [OF end_text_no_dash, of hdr]
    by (simp add: range_end_double_def parseInt_double_def truthy_def bound_value_def)
qed

lemma range_start_double_decimal:
  assumes "int a \<le> 2 ^ 53"
  shows "range_start_double (''bytes='' @ show_nat a @ ''-'' @ show_nat b) = Some (Finite (int a))"
proof -
  have "split_dash (show_nat a @ CHR ''-'' # show_nat b) = show_nat a # split_dash (show_nat b)"
    by (rule split_dash_append) (rule show_nat_no_dash)
  moreover have "to_double (int a) = Finite (int a)"
    using assms by (intro to_double_safe) simp
  ultimately show ?thesis
    by (simp add: range_start_double_def parseInt_double_def parseInt_show_nat)
qed

lemma range_end_double_decimal:
  assumes "int b \<le> 2 ^ 53"
  shows "range_end_double (''bytes='' @ show_nat a @ ''-'' @ show_nat b) n = Some (Finite (int b))"
proof -
  have "split_dash (show_nat a @ CHR ''-'' # show_nat b) = [show_nat a, show_nat b]"
    by (simp add: split_dash_append split_dash_plain show_nat_no_dash)
  moreover have "to_double (int b) = Finite (int b)"
    using assms by (intro to_double_safe) simp
  ultimately show ?thesis
    by (simp add: range_end_double_def parseInt_double_def part_def truthy_def show_nat_nonempty
        parseInt_show_nat)
qed

lemma range_end_double_open:
  "range_end_double (''bytes='' @ show_nat a @ ''-'') n = Some (Finite (n - 1))"
proof -
  have "split_dash (show_nat a @ CHR ''-'' # []) = show_nat a # split_dash []"
    by (rule split_dash_append) (rule show_nat_no_dash)
  then show ?thesis
    by (simp add: range_end_double_def part_def truthy_def)
qed

lemma get_v_doubles_416:
  assumes "d ident = Some r" and "uploads (filename r) = Some bytes" and "hdr \<noteq> []"
    and "range_start_double hdr = None \<or> range_end_double hdr (int (length bytes)) = None
         \<or> (\<exists>s e. range_start_double hdr = Some s
                   \<and> range_end_double hdr (int (length bytes)) = Some e \<and> exceeds s e)"
  shows "get_v_doubles mime_lookup d uploads ident (Some hdr) =
           Answered (Media \<lparr>status_code = 416, accept_ranges = Some ''bytes'',
                  content_type = Some (contentType mime_lookup r),
                  content_range = Some (''bytes */'' @ show_nat (length bytes)),
                  content_length = None, body = []\<rparr>)"
  using assms
  by (auto simp: get_v_doubles_def Let_def truthy_def show_int_of_nat)

lemma get_v_doubles_206:
  assumes "d ident = Some r" and "uploads (filename r) = Some bytes" and "hdr \<noteq> []"
    and "range_start_double hdr = Some (Finite s)"
    and "range_end_double hdr (int (length bytes)) = Some (Finite e)"
    and "0 \<le> s" and "s \<le> e" and "e \<le> MAX_SAFE_INTEGER"
  shows "get_v_doubles mime_lookup d uploads ident (Some hdr) =
           Answered (Media \<lparr>status_code = 206, accept_ranges = Some ''bytes'',
                  content_type = Some (contentType mime_lookup r),
                  content_range = Some (''bytes '' @ show_int s @ ''-'' @ show_int e
                                        @ ''/'' @ show_nat (length bytes)),
                  content_length = Some (e - s + 1),
                  body = createReadStream bytes s e\<rparr>)"
  using assms
  by (simp add: get_v_doubles_def createReadStream_checked_def show_number_def Let_def truthy_def
      show_int_of_nat)

text \<open>No other Range header is answered 416.\<close>

lemma get_v_doubles_partial:
  assumes "d ident = Some r" and "uploads (filename r) = Some bytes" and "hdr \<noteq> []"
    and "range_start_double hdr = Some s"
    and "range_end_double hdr (int (length bytes)) = Some e"
    and "\<not> exceeds s e"
    and "get_v_doubles mime_lookup d uploads ident (Some hdr) = Answered (Media a)"
  shows "status_code a = 206"
  using assms
  by (auto simp: get_v_doubles_def Let_def truthy_def split: option.splits number.splits)

lemma get_v_doubles_416_only:
  assumes "d ident = Some r" and "uploads (filename r) = Some bytes" and "hdr \<noteq> []"
    and "get_v_doubles mime_lookup d uploads ident (Some hdr) = Answered (Media a)"
    and "status_code a = 416"
  shows "leading_digits (start_text hdr) = []
         \<or> (end_text hdr \<noteq> [] \<and> leading_digits (end_text hdr) = [])
         \<or> exceeds (bound_value (start_text hdr))
              (if end_text hdr = [] then Finite (int (length bytes) - 1)
               else bound_value (end_text hdr))"
proof (rule ccontr)
  assume n: "\<not> (leading_digits (start_text hdr) = []
         \<or> (end_text hdr \<noteq> [] \<and> leading_digits (end_text hdr) = [])
         \<or> exceeds (bound_value (start_text hdr))
              (if end_text hdr = [] then Finite (int (length bytes) - 1)
               else bound_value (end_text hdr)))"
  let ?s = "bound_value (start_text hdr)"
  let ?e = "if end_text hdr = [] then Finite (int (length bytes) - 1)
            else bound_value (end_text hdr)"
  from n have s: "range_start_double hdr = Some ?s"
    by (simp add: range_start_double_text)
  from n have e: "range_end_double hdr (int (length bytes)) = Some ?e"
    by (auto simp: range_end_double_text)
  from n have x: "\<not> exceeds ?s ?e" by simp
  from get_v_doubles_partial [where d = d and ident = ident and r = r and uploads = uploads
      and bytes = bytes, OF assms(1-3) s e x assms(4)] assms(5)
  show False by simp
qed

text \<open>The two handlers agree when the request has no Range header, and when the bounds
  that \<open>get_v\<close> reads, and the size of the file, are at most \<open>2^53 - 1\<close>.\<close>

lemma get_v_doubles_no_range:
  assumes "d ident = Some r"
  shows "get_v_doubles mime_lookup d uploads ident None =
           Answered (get_v mime_lookup d uploads ident None)"
  using assms by (simp add: get_v_doubles_def get_v_def Let_def split: option.splits)

lemma get_v_doubles_safe:
  assumes "d ident = Some r" and "uploads (filename r) = Some bytes"
    and "int (length bytes) \<le> MAX_SAFE_INTEGER"
    and "\<And>v. range_start hdr = Some v \<Longrightarrow> v \<le> MAX_SAFE_INTEGER"
    and "\<And>v. range_end hdr (int (length bytes)) = Some v \<Longrightarrow> v \<le> MAX_SAFE_INTEGER"
  shows "get_v_doubles mime_lookup d uploads ident (Some hdr) =
           Answered (get_v mime_lookup d uploads ident (Some hdr))"
proof -
  have safe: "to_double v = Finite v" if "- 1 \<le> v" and "v \<le> MAX_SAFE_INTEGER" for v
    using that by (intro to_double_safe) (simp add: MAX_SAFE_INTEGER_def)
  have s: "range_start_double hdr = map_option Finite (range_start hdr)"
  proof (cases "range_start hdr")
    case None
    then show ?thesis
      by (simp add: range_start_double_def range_start_def parseInt_double_def)
  next
    case (Some v)
    with range_start_nonneg [OF Some] assms(4) [OF Some] safe [of v] show ?thesis
      by (simp add: range_start_double_def range_start_def parseInt_double_def)
  qed
  have e: "range_end_double hdr (int (length bytes)) =
             map_option Finite (range_end hdr (int (length bytes)))"
  proof (cases "range_end hdr (int (length bytes))")
    case None
    then show ?thesis
      by (auto simp: range_end_double_def range_end_def parseInt_double_def
          split: option.splits if_splits)
  next
    case (Some v)
    from range_end_lower [OF Some] have "- 1 \<le> v" by simp
    with Some assms(5) [OF Some] safe [of v] show ?thesis
      by (auto simp: range_end_double_def range_end_def parseInt_double_def
          split: option.splits if_splits)
  qed
  show ?thesis
  proof (cases "range_start hdr")
    case None
    with assms(1,2) s e show ?thesis
      by (simp add: get_v_doubles_def get_v_def Let_def split: option.splits)
  next
    case st: (Some sv)
    show ?thesis
    proof (cases "range_end hdr (int (length bytes))")
      case None
      with assms(1,2) s e st show ?thesis
        by (simp add: get_v_doubles_def get_v_def Let_def split: option.splits)
    next
      case en: (Some ev)
      from assms(4) [OF st] assms(5) [OF en] range_start_nonneg [OF st] assms(1,2) s e st en
      show ?thesis
        by (auto simp: get_v_doubles_def get_v_def createReadStream_checked_def show_number_def
            Let_def)
    qed
  qed
qed

text \<open>On files below \<open>2^53\<close> bytes the handler with the numbers of the source serves a
  range inside the file as \<open>get_v\<close> does.\<close>

lemma get_v_doubles_range_inside:
  assumes "d ident = Some r" and "uploads (filename r) = Some bytes"
    and "a \<le> b" and "b < length bytes" and "int (length bytes) \<le> MAX_SAFE_INTEGER"
  shows "get_v_doubles mime_lookup d uploads ident
             (Some (''bytes='' @ show_nat a @ ''-'' @ show_nat b)) =
           Answered (Media \<lparr>status_code = 206, accept_ranges = Some ''bytes'',
                  content_type = Some (contentType mime_lookup r),
                  content_range = Some (''bytes '' @ show_nat a @ ''-'' @ show_nat b
                                        @ ''/'' @ show_nat (length bytes)),
                  content_length = Some (int b - int a + 1),
                  body = map ((!) bytes) [a..<Suc b]\<rparr>)"
proof -
  let ?h = "''bytes='' @ show_nat a @ ''-'' @ show_nat b"
  from assms(3,4,5) have ab: "int a \<le> 2 ^ 53" "int b \<le> 2 ^ 53"
    and m: "int b \<le> MAX_SAFE_INTEGER"
    by (simp_all add: MAX_SAFE_INTEGER_def)
  have s: "range_start_double ?h = Some (Finite (int a))"
    using ab(1) by (rule range_start_double_decimal)
  have e: "range_end_double ?h (int (length bytes)) = Some (Finite (int b))"
    using ab(2) by (rule range_end_double_decimal)
  have n: "nat (int b - int a + 1) = b - a + 1" using assms(3) by simp
  have "a + (b - a + 1) \<le> length bytes" using assms(3,4) by simp
  then have "take (b - a + 1) (drop a bytes) = map ((!) bytes) [a..<a + (b - a + 1)]"
    by (rule take_drop_nth)
  moreover have "a + (b - a + 1) = Suc b" using assms(3) by simp
  ultimately have b: "createReadStream bytes (int a) (int b) = map ((!) bytes) [a..<Suc b]"
    by (simp add: createReadStream_def n)
  have h: "?h \<noteq> []" by simp
  have le: "0 \<le> int a" "int a \<le> int b" using assms(3) by simp_all
  from get_v_doubles_206 [where d = d and ident = ident and r = r and uploads = uploads
      and bytes = bytes and mime_lookup = mime_lookup, OF assms(1,2) h s e le m]
  show ?thesis
    by (simp add: b show_int_of_nat)
qed

text \<open>Claim C5, as stated, fails on the code in two ways. A start bound \<open>1x\<close> does not
  parse as an integer, yet \<open>parseInt\<close> reads its leading digit and the request is
  answered 206 for the bytes 1 to 3. And with the start \<open>2^53 + 1\<close> above the end
  \<open>2^53\<close> the two bounds are read as the same double, the test \<open>start > end\<close> is
  false, and the request ends with status 500 when \<open>fs.createReadStream\<close> refuses the
  bounds.\<close>

theorem range_bounds_counterexample:
  "get_v_doubles no_mime sample_data sample_files ''a'' (Some ''bytes=1x-3'') =
     Answered (Media \<lparr>status_code = 206, accept_ranges = Some ''bytes'',
            content_type = Some ''video/mp4'', content_range = Some ''bytes 1-3/5'',
            content_length = Some 3, body = [11, 12, 13]\<rparr>)
   \<and> get_v_doubles no_mime sample_data sample_files ''a''
        (Some ''bytes=9007199254740993-9007199254740992'') = Status500"
  by code_simp

text \<open>Claim C5, amended. The request carries a Range header (a non-empty value). The
  answer is 416 with \<open>Content-Range: bytes */size\<close> and an empty body, for a file of
  any size, 0 included, in each of these cases: the text of the start bound begins with no
  digit, after white space and a sign; the text of the end bound is not empty and begins
  with no digit; the value of the start bound is above the value of the end bound, values
  being doubles and an empty end bound standing for \<open>size - 1\<close>. In particular the
  header \<open>bytes=a-b\<close> with \<open>b < a \<le> 2^53\<close> is answered so, and so is \<open>bytes=a-\<close>
  with \<open>size \<le> a \<le> 2^53\<close>.\<close>

theorem get_v_range_invalid:
  assumes "d ident = Some r" and "uploads (filename r) = Some bytes"
  shows "(hdr \<noteq> [] \<and>
          (leading_digits (start_text hdr) = []
           \<or> (end_text hdr \<noteq> [] \<and> leading_digits (end_text hdr) = [])
           \<or> exceeds (bound_value (start_text hdr))
                (if end_text hdr = [] then Finite (int (length bytes) - 1)
                 else bound_value (end_text hdr))) \<longrightarrow>
          get_v_doubles mime_lookup d uploads ident (Some hdr) =
            Answered (Media \<lparr>status_code = 416, accept_ranges = Some ''bytes'',
                   content_type = Some (contentType mime_lookup r),
                   content_range = Some (''bytes */'' @ show_nat (length bytes)),
                   content_length = None, body = []\<rparr>))
       \<and> (b < a \<and> int a \<le> 2 ^ 53 \<longrightarrow>
          get_v_doubles mime_lookup d uploads ident
              (Some (''bytes='' @ show_nat a @ ''-'' @ show_nat b)) =
            Answered (Media \<lparr>status_code = 416, accept_ranges = Some ''bytes'',
                   content_type = Some (contentType mime_lookup r),
                   content_range = Some (''bytes */'' @ show_nat (length bytes)),
                   content_length = None, body = []\<rparr>))
       \<and> (length bytes \<le> a \<and> int a \<le> 2 ^ 53 \<longrightarrow>
          get_v_doubles mime_lookup d uploads ident (Some (''bytes='' @ show_nat a @ ''-'')) =
            Answered (Media \<lparr>status_code = 416, accept_ranges = Some ''bytes'',
                   content_type = Some (contentType mime_lookup r),
                   content_range = Some (''bytes */'' @ show_nat (length bytes)),
                   content_length = None, body = []\<rparr>))"
proof (intro conjI impI)
  assume a: "hdr \<noteq> [] \<and>
          (leading_digits (start_text hdr) = []
           \<or> (end_text hdr \<noteq> [] \<and> leading_digits (end_text hdr) = [])
           \<or> exceeds (bound_value (start_text hdr))
                (if end_text hdr = [] then Finite (int (length bytes) - 1)
                 else bound_value (end_text hdr)))"
  then have n: "hdr \<noteq> []" by simp
  from a have "range_start_double hdr = None \<or> range_end_double hdr (int (length bytes)) = None
      \<or> (\<exists>s e. range_start_double hdr = Some s
                \<and> range_end_double hdr (int (length bytes)) = Some e \<and> exceeds s e)"
    by (auto simp: range_start_double_text range_end_double_text)
  then show "get_v_doubles mime_lookup d uploads ident (Some hdr) =
            Answered (Media \<lparr>status_code = 416, accept_ranges = Some ''bytes'',
                   content_type = Some (contentType mime_lookup r),
                   content_range = Some (''bytes */'' @ show_nat (length bytes)),
                   content_length = None, body = []\<rparr>)"
    by (rule get_v_doubles_416 [where d = d and ident = ident and r = r
          and uploads = uploads and bytes = bytes, OF assms n])
next
  assume ba: "b < a \<and> int a \<le> 2 ^ 53"
  let ?h = "''bytes='' @ show_nat a @ ''-'' @ show_nat b"
  from ba have "int a \<le> 2 ^ 53" and "int b \<le> 2 ^ 53" by simp_all
  then have "range_start_double ?h = Some (Finite (int a))"
    and "range_end_double ?h (int (length bytes)) = Some (Finite (int b))"
    by (simp_all only: range_start_double_decimal range_end_double_decimal)
  with ba have c: "range_start_double ?h = None \<or> range_end_double ?h (int (length bytes)) = None
      \<or> (\<exists>s e. range_start_double ?h = Some s
                \<and> range_end_double ?h (int (length bytes)) = Some e \<and> exceeds s e)"
    by simp
  have n: "?h \<noteq> []" by simp
  show "get_v_doubles mime_lookup d uploads ident (Some ?h) =
            Answered (Media \<lparr>status_code = 416, accept_ranges = Some ''bytes'',
                   content_type = Some (contentType mime_lookup r),
                   content_range = Some (''bytes */'' @ show_nat (length bytes)),
                   content_length = None, body = []\<rparr>)"
    by (rule get_v_doubles_416 [where d = d and ident = ident and r = r
          and uploads = uploads and bytes = bytes, OF assms n c])
next
  assume sa: "length bytes \<le> a \<and> int a \<le> 2 ^ 53"
  let ?h = "''bytes='' @ show_nat a @ ''-''"
  from sa have "int a \<le> 2 ^ 53" by simp
  then have "range_start_double (''bytes='' @ show_nat a @ ''-'' @ show_nat 0) = Some (Finite (int a))"
    by (rule range_start_double_decimal)
  moreover have "split_dash (show_nat a @ CHR ''-'' # show_nat 0) = show_nat a # split_dash (show_nat 0)"
    "split_dash (show_nat a @ CHR ''-'' # []) = show_nat a # split_dash []"
    by (rule split_dash_append, rule show_nat_no_dash)+
  ultimately have "range_start_double ?h = Some (Finite (int a))"
    by (simp add: range_start_double_def)
  moreover have "range_end_double ?h (int (length bytes)) = Some (Finite (int (length bytes) - 1))"
    by (rule range_end_double_open)
  ultimately have c: "range_start_double ?h = None \<or> range_end_double ?h (int (length bytes)) = None
      \<or> (\<exists>s e. range_start_double ?h = Some s
                \<and> range_end_double ?h (int (length bytes)) = Some e \<and> exceeds s e)"
    using sa by simp
  have n: "?h \<noteq> []" by simp
  show "get_v_doubles mime_lookup d uploads ident (Some ?h) =
            Answered (Media \<lparr>status_code = 416, accept_ranges = Some ''bytes'',
                   content_type = Some (contentType mime_lookup r),
                   content_range = Some (''bytes */'' @ show_nat (length bytes)),
                   content_length = None, body = []\<rparr>)"
    by (rule get_v_doubles_416 [where d = d and ident = ident and r = r
          and uploads = uploads and bytes = bytes, OF assms n c])
qed

theorem get_v_range_invalid_witness:
  "get_v_doubles no_mime sample_data empty_files ''a'' (Some ''bytes=abc-5'') =
     Answered (Media \<lparr>status_code = 416, accept_ranges = Some ''bytes'',
            content_type = Some ''video/mp4'', content_range = Some ''bytes */0'',
            content_length = None, body = []\<rparr>)
   \<and> get_v_doubles no_mime sample_data empty_files ''a'' (Some ''bytes=0-'') =
     Answered (Media \<lparr>status_code = 416, accept_ranges = Some ''bytes'',
            content_type = Some ''video/mp4'', content_range = Some ''bytes */0'',
            content_length = None, body = []\<rparr>)
   \<and> get_v_doubles no_mime sample_data sample_files ''a'' (Some ''bytes=2-x'') =
     Answered (Media \<lparr>status_code = 416, accept_ranges = Some ''bytes'',
            content_type = Some ''video/mp4'', content_range = Some ''bytes */5'',
            content_length = None, body = []\<rparr>)
   \<and> get_v_doubles no_mime sample_data sample_files ''a'' (Some ''bytes=4-3'') =
     Answered (Media \<lparr>status_code = 416, accept_ranges = Some ''bytes'',
            content_type = Some ''video/mp4'', content_range = Some ''bytes */5'',
            content_length = None, body = []\<rparr>)
   \<and> get_v_doubles no_mime sample_data sample_files ''a'' (Some ''bytes=5-'') =
     Answered (Media \<lparr>status_code = 416, accept_ranges = Some ''bytes'',
            content_type = Some ''video/mp4'', content_range = Some ''bytes */5'',
            content_length = None, body = []\<rparr>)"
proof -
  have r: "sample_data ''a'' = Some sample_record" by (simp add: sample_data_def)
  have f0: "empty_files (filename sample_record) = Some []"
    by (simp add: empty_files_def sample_record_def)
  have f5: "sample_files (filename sample_record) = Some [10, 11, 12, 13, 14]"
    by (simp add: sample_files_def sample_record_def)
  have ct: "contentType no_mime sample_record = ''video/mp4''"
    by (simp add: contentType_def truthy_def sample_record_def)
  have s1: "leading_digits (start_text ''bytes=abc-5'') = []"
    by (simp add: start_text_def leading_digits_def is_space_def is_digit_def)
  have s2: "end_text ''bytes=0-'' = []" "bound_value (start_text ''bytes=0-'') = Finite 0"
    using to_double_safe [of 0]
    by (simp_all add: end_text_def start_text_def bound_value_def leading_digits_def
        is_space_def is_digit_def digits_value_def digit_val_def)
  have s3: "end_text ''bytes=2-x'' = ''x''" "leading_digits ''x'' = []"
    by (simp_all add: end_text_def leading_digits_def is_space_def is_digit_def)
  have "get_v_doubles no_mime sample_data empty_files ''a'' (Some ''bytes=abc-5'') =
     Answered (Media \<lparr>status_code = 416, accept_ranges = Some ''bytes'',
            content_type = Some ''video/mp4'', content_range = Some ''bytes */0'',
            content_length = None, body = []\<rparr>)"
    using get_v_range_invalid [where d = sample_data and r = sample_record
        and uploads = empty_files and mime_lookup = no_mime and hdr = "''bytes=abc-5''",
        OF r f0, THEN conjunct1]
    by (simp add: s1 ct show_nat.simps digit_char_def)
  moreover have "get_v_doubles no_mime sample_data empty_files ''a'' (Some ''bytes=0-'') =
     Answered (Media \<lparr>status_code = 416, accept_ranges = Some ''bytes'',
            content_type = Some ''video/mp4'', content_range = Some ''bytes */0'',
            content_length = None, body = []\<rparr>)"
    using get_v_range_invalid [where d = sample_data and r = sample_record
        and uploads = empty_files and mime_lookup = no_mime and hdr = "''bytes=0-''",
        OF r f0, THEN conjunct1]
    by (simp add: s2 ct show_nat.simps digit_char_def)
  moreover have "get_v_doubles no_mime sample_data sample_files ''a'' (Some ''bytes=2-x'') =
     Answered (Media \<lparr>status_code = 416, accept_ranges = Some ''bytes'',
            content_type = Some ''video/mp4'', content_range = Some ''bytes */5'',
            content_length = None, body = []\<rparr>)"
    using get_v_range_invalid [where d = sample_data and r = sample_record
        and uploads = sample_files and mime_lookup = no_mime and hdr = "''bytes=2-x''",
        OF r f5, THEN conjunct1]
    by (simp add: s3 ct show_nat.simps digit_char_def)
  moreover have "get_v_doubles no_mime sample_data sample_files ''a'' (Some ''bytes=4-3'') =
     Answered (Media \<lparr>status_code = 416, accept_ranges = Some ''bytes'',
            content_type = Some ''video/mp4'', content_range = Some ''bytes */5'',
            content_length = None, body = []\<rparr>)"
    using get_v_range_invalid [where d = sample_data and r = sample_record
        and uploads = sample_files and mime_lookup = no_mime and a = 4 and b = 3,
        OF r f5, THEN conjunct2, THEN conjunct1]
    by (simp add: ct show_nat.simps digit_char_def)
  moreover have "get_v_doubles no_mime sample_data sample_files ''a'' (Some ''bytes=5-'') =
     Answered (Media \<lparr>status_code = 416, accept_ranges = Some ''bytes'',
            content_type = Some ''video/mp4'', content_range = Some ''bytes */5'',
            content_length = None, body = []\<rparr>)"
    using get_v_range_invalid [where d = sample_data and r = sample_record
        and uploads = sample_files and mime_lookup = no_mime and a = 5,
        OF r f5, THEN conjunct2, THEN conjunct2]
    by (simp add: ct show_nat.simps digit_char_def)
  ultimately show ?thesis by blast
qed

text \<open>Claim C10, as stated, fails on the code. The bounds of \<open>bytes=0-9007199254740992\<close>
  parse, with 0 at most the end and the end, \<open>2^53\<close>, past the size of the five-byte
  file; \<open>fs.createReadStream\<close> refuses an end above \<open>2^53 - 1\<close>, and the request is
  answered with status 500, not 206.\<close>

theorem range_past_end_counterexample:
  "get_v_doubles no_mime sample_data sample_files ''a'' (Some ''bytes=0-9007199254740992'') =
     Status500"
  by code_simp

text \<open>Claim C10, amended: the end bound is at most \<open>2^53 - 1\<close>. With
  \<open>0 \<le> a \<le> b\<close> and \<open>b\<close> at or past the size of a non-empty file the handler neither
  rejects nor clamps: it answers 206, \<open>Content-Range\<close> names the end bound \<open>b\<close> as
  sent, \<open>Content-Length\<close> is \<open>b-a+1\<close>, and the body is what the file has from offset
  \<open>a\<close> on, fewer bytes than the declared length.\<close>

theorem get_v_range_past_end:
  assumes "d ident = Some r" and "uploads (filename r) = Some bytes"
    and "a \<le> b" and "length bytes \<le> b" and "0 < length bytes"
    and "int b \<le> MAX_SAFE_INTEGER"
  shows "get_v_doubles mime_lookup d uploads ident
             (Some (''bytes='' @ show_nat a @ ''-'' @ show_nat b)) =
           Answered (Media \<lparr>status_code = 206, accept_ranges = Some ''bytes'',
                  content_type = Some (contentType mime_lookup r),
                  content_range = Some (''bytes '' @ show_nat a @ ''-'' @ show_nat b
                                        @ ''/'' @ show_nat (length bytes)),
                  content_length = Some (int b - int a + 1),
                  body = drop a bytes\<rparr>)
         \<and> int (length (drop a bytes)) < int b - int a + 1"
proof -
  let ?h = "''bytes='' @ show_nat a @ ''-'' @ show_nat b"
  from assms(3,6) have ab: "int a \<le> 2 ^ 53" "int b \<le> 2 ^ 53"
    by (simp_all add: MAX_SAFE_INTEGER_def)
  have s: "range_start_double ?h = Some (Finite (int a))"
    using ab(1) by (rule range_start_double_decimal)
  have e: "range_end_double ?h (int (length bytes)) = Some (Finite (int b))"
    using ab(2) by (rule range_end_double_decimal)
  have n: "nat (int b - int a + 1) = b - a + 1" using assms(3) by simp
  have short: "length (drop a bytes) < b - a + 1" using assms(3,4) by simp
  then have b: "createReadStream bytes (int a) (int b) = drop a bytes"
    by (simp add: createReadStream_def n)
  have h: "?h \<noteq> []" by simp
  have le: "0 \<le> int a" "int a \<le> int b" using assms(3) by simp_all
  from short assms(3) have "int (length (drop a bytes)) < int b - int a + 1"
    by simp
  with get_v_doubles_206 [where d = d and ident = ident and r = r and uploads = uploads
      and bytes = bytes and mime_lookup = mime_lookup, OF assms(1,2) h s e le assms(6)]
  show ?thesis
    by (simp add: b show_int_of_nat)
qed

theorem get_v_range_past_end_witness:
  "get_v_doubles no_mime sample_data sample_files ''a'' (Some ''bytes=3-9'') =
     Answered (Media \<lparr>status_code = 206, accept_ranges = Some ''bytes'',
            content_type = Some ''video/mp4'', content_range = Some ''bytes 3-9/5'',
            content_length = Some 7, body = [13, 14]\<rparr>)
   \<and> get_v_doubles no_mime sample_data sample_files ''a''
        (Some ''bytes=3-9007199254740991'') =
     Answered (Media \<lparr>status_code = 206, accept_ranges = Some ''bytes'',
            content_type = Some ''video/mp4'',
            content_range = Some ''bytes 3-9007199254740991/5'',
            content_length = Some 9007199254740989, body = [13, 14]\<rparr>)"
proof -
  have r: "sample_data ''a'' = Some sample_record" by (simp add: sample_data_def)
  have f: "sample_files (filename sample_record) = Some [10, 11, 12, 13, 14]"
    by (simp add: sample_files_def sample_record_def)
  have n: "0 < length [10, 11, 12, 13, 14 :: byte]" by simp
  have ab: "(3::nat) \<le> 9" and b: "length [10, 11, 12, 13, 14 :: byte] \<le> 9"
    and m: "int 9 \<le> MAX_SAFE_INTEGER"
    by (simp_all add: MAX_SAFE_INTEGER_def)
  have ab': "(3::nat) \<le> 9007199254740991"
    and b': "length [10, 11, 12, 13, 14 :: byte] \<le> 9007199254740991"
    and m': "int 9007199254740991 \<le> MAX_SAFE_INTEGER"
    by (simp_all add: MAX_SAFE_INTEGER_def)
  have big: "show_nat 9007199254740991 = ''9007199254740991''"
    by (simp add: show_nat.simps digit_char_def)
  from get_v_range_past_end [where d = sample_data and ident = "''a''" and r = sample_record
      and uploads = sample_files and mime_lookup = no_mime, OF r f ab b n m]
  have "get_v_doubles no_mime sample_data sample_files ''a'' (Some ''bytes=3-9'') =
     Answered (Media \<lparr>status_code = 206, accept_ranges = Some ''bytes'',
            content_type = Some ''video/mp4'', content_range = Some ''bytes 3-9/5'',
            content_length = Some 7, body = [13, 14]\<rparr>)"
    by (simp add: show_nat.simps contentType_def truthy_def sample_record_def digit_char_def)
  moreover
  from get_v_range_past_end [where d = sample_data and ident = "''a''" and r = sample_record
      and uploads = sample_files and mime_lookup = no_mime, OF r f ab' b' n m']
  have "get_v_doubles no_mime sample_data sample_files ''a''
        (Some ''bytes=3-9007199254740991'') =
     Answered (Media \<lparr>status_code = 206, accept_ranges = Some ''bytes'',
            content_type = Some ''video/mp4'',
            content_range = Some ''bytes 3-9007199254740991/5'',
            content_length = Some 9007199254740989, body = [13, 14]\<rparr>)"
    by (simp add: big) (simp add: show_nat.simps contentType_def truthy_def sample_record_def
        digit_char_def)
  ultimately show ?thesis by blast
qed

section \<open>The status hub\<close>

lemma ws_send_cases:
  "(case ws_send ws ident v w of Inl w' \<Rightarrow> w' | Inr w' \<Rightarrow> w') =
     w\<lparr>observed := observed w @ [send_result w ident v ws]\<rparr>"
  by (simp add: ws_send_def send_result_def)

lemma fold_broadcast_one:
  "fold (broadcast_one ident v) conns w =
     w\<lparr>observed := observed w
          @ map (send_result w ident v) (filter (\<lambda>ws. readyState w ws = OPEN) conns)\<rparr>"
proof (induction conns arbitrary: w)
  case Nil
  show ?case by simp
next
  case (Cons c conns)
  show ?case
  proof (cases "readyState w c = OPEN")
    case True
    let ?w1 = "w\<lparr>observed := observed w @ [send_result w ident v c]\<rparr>"
    have step: "broadcast_one ident v c w = ?w1"
      using True by (simp add: broadcast_one_def ws_send_cases)
    have same: "send_result ?w1 ident v = send_result w ident v"
      by (rule ext) (simp add: send_result_def)
    show ?thesis
      using True by (simp add: step Cons.IH [of ?w1] same)
  next
    case False
    then have "broadcast_one ident v c w = w" by (simp add: broadcast_one_def)
    with False show ?thesis by (simp add: Cons.IH)
  qed
qed

text \<open>Claim C4, as stated, fails on the code for two kinds of identifier. A \<open>subscribe\<close>
  message with an empty \<open>id\<close> is ignored (the handler requires \<open>data.id\<close> to be
  truthy): no set gets the connection and nothing is sent. And for the identifier
  \<open>constructor\<close>, which has no job, the message sent carries what the table inherits
  under that name and not \<open>{status: 'none'}\<close>.\<close>

theorem subscribe_counterexample:
  "on_message 7 (Data ''subscribe'' []) finished_world = finished_world
   \<and> transcodeJobs finished_world ''constructor'' = None
   \<and> observed (on_message 7 (Data ''subscribe'' ''constructor'') finished_world) =
       [Sent 7 ''constructor'' Inherited]"
  by (simp add: on_message_def truthy_def Let_def ws_send_def job_view_of_def
      object_prototype_names_def finished_world_def empty_world_def)

text \<open>Claim C4, amended. The identifier is not empty and is not the name of a property
  of \<open>Object.prototype\<close>. A \<open>subscribe\<close> message then makes the identifier's
  subscriber set the set it was (empty when there was none) with the connection added,
  leaves the sets of all other identifiers as they were, and hands \<open>ws.send\<close> exactly
  one status message for that connection, carrying the job as the table holds it, or
  \<open>{status: 'none'}\<close> when the table has no job; the message is delivered unless
  \<open>send\<close> itself throws. Nothing depends on the job's status, so a job that is already
  \<open>done\<close> is reported as such.\<close>

theorem subscribe_sends_current_state:
  assumes "ident \<noteq> []" and "ident \<notin> set object_prototype_names"
  shows "subscribers (on_message ws (Data ''subscribe'' ident) w) =
           (subscribers w)(ident \<mapsto>
              (case subscribers w ident of
                 None \<Rightarrow> [ws]
               | Some conns \<Rightarrow> if ws \<in> set conns then conns else conns @ [ws]))
       \<and> observed (on_message ws (Data ''subscribe'' ident) w) =
           observed w @ [send_result w ident
                           (case transcodeJobs w ident of None \<Rightarrow> NoJob | Some j \<Rightarrow> Job j) ws]
       \<and> transcodeJobs (on_message ws (Data ''subscribe'' ident) w) = transcodeJobs w"
  using assms
  by (simp add: on_message_def truthy_def Let_def ws_send_def send_result_def job_view_of_def
      set_add_def split: option.splits)

theorem subscribe_sends_current_state_witness:
  "subscribers (on_message 7 (Data ''subscribe'' ''a'') finished_world) ''a'' = Some [7]
   \<and> observed (on_message 7 (Data ''subscribe'' ''a'') finished_world) =
       [Sent 7 ''a'' (Job finished_job)]
   \<and> subscribers (on_message 3 (Data ''subscribe'' ''a'') closing_world) ''a'' = Some [1, 2, 3]
   \<and> observed (on_message 3 (Data ''subscribe'' ''a'') closing_world) = [Sent 3 ''a'' NoJob]"
proof -
  have a: "''a'' \<noteq> []" and n: "''a'' \<notin> set object_prototype_names"
    by (simp_all add: object_prototype_names_def)
  from subscribe_sends_current_state [OF a n, of 7 finished_world]
    subscribe_sends_current_state [OF a n, of 3 closing_world]
  show ?thesis
    by (simp add: finished_world_def closing_world_def empty_world_def send_result_def)
qed

text \<open>Claim C7 fails on the code. The \<open>close\<close> handler deletes the connection from one
  set, the one of \<open>ws._subscribedId\<close>, which holds the identifier of the last
  \<open>subscribe\<close> only. A connection that subscribed to \<open>a\<close> and then to \<open>b\<close> is, after
  it closed, still a member of the subscriber set of \<open>a\<close>.\<close>

theorem close_keeps_earlier_subscription:
  "subscribers two_subscriptions_closed ''a'' = Some [1]
   \<and> subscribers two_subscriptions_closed ''b'' = Some []
   \<and> readyState two_subscriptions_closed 1 = CLOSED"
  by (simp add: two_subscriptions_closed_def ws_closed_def on_close_def on_message_def
      empty_world_def truthy_def Let_def ws_send_def set_add_def set_delete_def)

text \<open>Claim C8, as stated, fails on the code: a member of the set whose socket is not open
  is sent nothing. Here the set of \<open>a\<close> holds the connections 1 and 2, connection 1 is
  closing, and the broadcast sends one message, to connection 2.\<close>

theorem broadcast_skips_closing_member:
  "subscribers closing_world ''a'' = Some [1, 2]
   \<and> observed (broadcastStatus ''a'' closing_world) = [Sent 2 ''a'' NoJob]"
  by (simp add: closing_world_def empty_world_def broadcastStatus_def broadcast_one_def
      ws_send_def job_view_of_def object_prototype_names_def)

text \<open>Claim C8, amended. \<open>broadcastStatus(id)\<close> calls \<open>ws.send\<close> with the current job
  state once for every member of the set whose socket is open, in the order of the set,
  and skips the others. A call that throws is recorded as lost and the loop goes on: the
  members after it are sent the message all the same, and nothing but the record of the
  sends changes.\<close>

theorem broadcastStatus_open_members:
  assumes "subscribers w ident = Some conns"
  shows "broadcastStatus ident w =
           w\<lparr>observed := observed w
                @ map (send_result w ident (job_view_of w ident))
                    (filter (\<lambda>ws. readyState w ws = OPEN) conns)\<rparr>"
  using assms by (simp add: broadcastStatus_def fold_broadcast_one)

theorem broadcastStatus_open_members_witness:
  "observed (broadcastStatus ''a'' throwing_world) =
     [Sent 1 ''a'' NoJob, SendThrew 2 ''a'' NoJob, Sent 3 ''a'' NoJob]"
proof -
  have "subscribers throwing_world ''a'' = Some [1, 2, 3]"
    by (simp add: throwing_world_def empty_world_def)
  from broadcastStatus_open_members [OF this]
  show ?thesis
    by (simp add: throwing_world_def empty_world_def send_result_def job_view_of_def
        object_prototype_names_def)
qed

section \<open>Progress estimates\<close>

lemma broadcastStatus_eq:
  "broadcastStatus ident w = w\<lparr>observed := observed w @ broadcast_msgs ident w\<rparr>"
  by (cases "subscribers w ident")
    (simp_all add: broadcastStatus_def broadcast_msgs_def fold_broadcast_one)

lemma transcodeJobs_broadcastStatus [simp]:
  "transcodeJobs (broadcastStatus ident w) = transcodeJobs w"
  by (simp add: broadcastStatus_eq)

lemma files_broadcastStatus [simp]: "files (broadcastStatus ident w) = files w"
  by (simp add: broadcastStatus_eq)

lemma data_json_broadcastStatus [simp]: "data_json (broadcastStatus ident w) = data_json w"
  by (simp add: broadcastStatus_eq)

lemma data_writable_broadcastStatus [simp]:
  "data_writable (broadcastStatus ident w) = data_writable w"
  by (simp add: broadcastStatus_eq)

lemma transcodeJobs_update_job:
  "transcodeJobs (update_job ident f w) =
     (case transcodeJobs w ident of
        None \<Rightarrow> transcodeJobs w
      | Some j \<Rightarrow> (transcodeJobs w)(ident \<mapsto> f j))"
  by (simp add: update_job_def split: option.splits)

lemma update_job_other [simp]:
  "files (update_job ident f w) = files w"
  "data_json (update_job ident f w) = data_json w"
  "data_writable (update_job ident f w) = data_writable w"
  "observed (update_job ident f w) = observed w"
  "subscribers (update_job ident f w) = subscribers w"
  "readyState (update_job ident f w) = readyState w"
  "send_throws (update_job ident f w) = send_throws w"
  by (simp_all add: update_job_def split: option.splits)

lemma js_round_shift: "js_round (x - of_int k) = js_round x - k"
proof -
  have "x - of_int k + 1 / 2 = (x + 1 / 2) - of_int k" by simp
  then show ?thesis
    unfolding js_round_def by (simp only: floor_diff_of_int)
qed

lemma js_round_mono: "x \<le> y \<Longrightarrow> js_round x \<le> js_round y"
  by (simp add: js_round_def floor_mono)

lemma js_round_of_int: "js_round (of_int k) = k"
  unfolding js_round_def by linarith

lemma eta_estimate_exact:
  assumes "0 \<le> secs" and "0 < pct" and "pct \<le> 100"
  shows "eta_estimate (\<lambda>x. x) secs pct =
           js_round (of_int secs * (100 / of_int pct) - of_int secs)"
proof -
  have "(1::rat) \<le> 100 / of_int pct"
    using assms(2,3) by (simp add: le_divide_eq)
  then have "of_int secs * 1 \<le> of_int secs * (100 / of_int pct :: rat)"
    using assms(1) by (intro mult_left_mono) simp_all
  then have "js_round (of_int secs) \<le> js_round (of_int secs * (100 / of_int pct))"
    by (intro js_round_mono) simp
  then have "0 \<le> js_round (of_int secs * (100 / of_int pct)) - secs"
    by (simp add: js_round_of_int)
  then show ?thesis
    by (simp add: eta_estimate_def js_round_shift)
qed

text \<open>Two operations rounded to doubles, against exact arithmetic.\<close>

lemma js_round_near: "\<bar>x - y\<bar> < 1 \<Longrightarrow> \<bar>js_round x - js_round y\<bar> \<le> 1"
  unfolding js_round_def by linarith

lemma js_round_lower: "of_int k \<le> x \<Longrightarrow> k \<le> js_round x"
  unfolding js_round_def by linarith

lemma binary64_two_ops:
  assumes "0 \<le> q" and "0 \<le> c"
  shows "\<bar>binary64 (binary64 q * c) - q * c\<bar> \<le> 3 * (q * c) / 2 ^ 53"
proof -
  define dl :: rat where "dl = 1 / 2 ^ 53"
  have dl: "0 \<le> dl" "dl \<le> 1" by (simp_all add: dl_def)
  define q1 where "q1 = binary64 q"
  have q1: "0 \<le> q1" unfolding q1_def using assms(1) by (rule binary64_nonneg)
  have e1: "\<bar>q1 - q\<bar> \<le> q * dl"
    using binary64_error [of q] assms(1) by (simp add: q1_def dl_def)
  have y: "0 \<le> q1 * c" using q1 assms(2) by simp
  have e2: "\<bar>binary64 (q1 * c) - q1 * c\<bar> \<le> q1 * c * dl"
    using binary64_error [of "q1 * c"] y by (simp add: dl_def)
  have "q1 \<le> q + q * dl" using e1 by linarith
  then have "q1 * c \<le> (q + q * dl) * c" using assms(2) by (rule mult_right_mono)
  then have "q1 * c * dl \<le> (q + q * dl) * c * dl" using dl(1) by (rule mult_right_mono)
  with e2 have e3: "\<bar>binary64 (q1 * c) - q1 * c\<bar> \<le> (q + q * dl) * c * dl" by linarith
  have "\<bar>q1 * c - q * c\<bar> = \<bar>q1 - q\<bar> * c"
    using assms(2) by (simp add: left_diff_distrib [symmetric] abs_mult del: left_diff_distrib)
  also have "\<dots> \<le> q * dl * c" using e1 assms(2) by (rule mult_right_mono)
  finally have e4: "\<bar>q1 * c - q * c\<bar> \<le> q * dl * c" .
  have qc: "0 \<le> q * c" using assms by simp
  have "q * c * dl * dl \<le> q * c * dl * 1"
    using qc dl by (intro mult_left_mono) simp_all
  then have e5: "(q + q * dl) * c * dl + q * dl * c \<le> 3 * (q * c) * dl"
    by (simp add: algebra_simps)
  have "\<bar>binary64 (q1 * c) - q * c\<bar> \<le> \<bar>binary64 (q1 * c) - q1 * c\<bar> + \<bar>q1 * c - q * c\<bar>"
    by linarith
  with e3 e4 e5 have "\<bar>binary64 (q1 * c) - q * c\<bar> \<le> 3 * (q * c) * dl" by linarith
  then show ?thesis by (simp add: q1_def dl_def)
qed

lemma percent_estimate_within_one:
  assumes "0 \<le> outSize" and "0 < inSize"
  shows "\<bar>percent_estimate binary64 outSize inSize - percent_estimate (\<lambda>x. x) outSize inSize\<bar> \<le> 1"
proof -
  define q :: rat where "q = of_int outSize / of_int inSize"
  define p where "p = binary64 (binary64 q * 100)"
  have q: "0 \<le> q" using assms by (simp add: q_def)
  have err: "\<bar>p - q * 100\<bar> \<le> 3 * (q * 100) / 2 ^ 53"
    unfolding p_def using q by (intro binary64_two_ops) simp_all
  have d: "percent_estimate binary64 outSize inSize = min 100 (js_round p)"
    by (simp add: percent_estimate_def p_def q_def)
  have x: "percent_estimate (\<lambda>x. x) outSize inSize = min 100 (js_round (q * 100))"
    by (simp add: percent_estimate_def q_def)
  show ?thesis
  proof (cases "q * 100 \<le> 200")
    case True
    then have "3 * (q * 100) / 2 ^ 53 \<le> 600 / 2 ^ 53" by simp
    with err have "\<bar>p - q * 100\<bar> < 1" by simp
    then have "\<bar>js_round p - js_round (q * 100)\<bar> \<le> 1" by (rule js_round_near)
    then show ?thesis unfolding d x by linarith
  next
    case False
    then have big: "200 < q * 100" by simp
    then have "3 * (q * 100) / 2 ^ 53 \<le> q * 100 / 2" by simp
    with err have "q * 100 / 2 \<le> p" by linarith
    with big have "of_int 100 \<le> p" by simp
    then have "100 \<le> js_round p" by (rule js_round_lower)
    moreover from big have "of_int 100 \<le> q * 100" by simp
    then have "100 \<le> js_round (q * 100)" by (rule js_round_lower)
    ultimately show ?thesis by (simp add: d x)
  qed
qed

lemma percent_estimate_double_bounds:
  assumes "0 \<le> outSize" and "0 < inSize"
  shows "0 \<le> percent_estimate binary64 outSize inSize"
    and "percent_estimate binary64 outSize inSize \<le> 100"
proof -
  have "(0::rat) \<le> of_int outSize / of_int inSize" using assms by simp
  then have "0 \<le> binary64 (of_int outSize / of_int inSize) * 100"
    using binary64_nonneg by simp
  then have "of_int 0 \<le> binary64 (binary64 (of_int outSize / of_int inSize) * 100)"
    using binary64_nonneg by simp
  then have "0 \<le> js_round (binary64 (binary64 (of_int outSize / of_int inSize) * 100))"
    by (rule js_round_lower)
  then show "0 \<le> percent_estimate binary64 outSize inSize"
    by (simp add: percent_estimate_def)
  show "percent_estimate binary64 outSize inSize \<le> 100"
    by (simp add: percent_estimate_def)
qed

lemma eta_estimate_within_one:
  assumes "0 \<le> secs" and "secs \<le> 2 ^ 40" and "0 < pct" and "pct \<le> 100"
  shows "\<bar>eta_estimate binary64 secs pct - eta_estimate (\<lambda>x. x) secs pct\<bar> \<le> 1"
proof -
  define q :: rat where "q = 100 / of_int pct"
  define c :: rat where "c = of_int secs"
  define z where "z = binary64 (binary64 q * c)"
  have q: "0 \<le> q" "q \<le> 100" using assms(3) by (simp_all add: q_def divide_le_eq)
  have c: "0 \<le> c" "c \<le> 2 ^ 40" using assms(1,2) unfolding c_def
    by simp (metis assms(2) of_int_le_iff of_int_numeral of_int_power)
  define x where "x = q * c"
  have err: "\<bar>z - x\<bar> \<le> 3 * x / 2 ^ 53"
    unfolding z_def x_def using q(1) c(1) by (rule binary64_two_ops)
  have "x \<le> 100 * 2 ^ 40" unfolding x_def using q c by (intro mult_mono) simp_all
  then have "3 * x / 2 ^ 53 \<le> 3 * (100 * 2 ^ 40) / 2 ^ 53" by simp
  with err have "\<bar>z - x\<bar> < 1" by simp
  then have n: "\<bar>js_round z - js_round x\<bar> \<le> 1" by (rule js_round_near)
  have d: "eta_estimate binary64 secs pct = max 0 (js_round z - secs)"
    by (simp add: eta_estimate_def z_def q_def c_def mult.commute)
  have x: "eta_estimate (\<lambda>x. x) secs pct = max 0 (js_round x - secs)"
    by (simp add: eta_estimate_def x_def q_def c_def mult.commute)
  from n show ?thesis unfolding d x by linarith
qed

text \<open>The elapsed seconds are the same in doubles and in exact arithmetic, up to
  \<open>2^40\<close> milliseconds (some thirty years): a quotient by 1000 that is not half an
  integer is at least a thousandth away from every half, more than the rounding moves it,
  and half an integer is a double.\<close>

lemma elapsed_seconds_exact:
  assumes "\<bar>now - start\<bar> \<le> 2 ^ 40"
  shows "elapsed_seconds binary64 now start = elapsed_seconds (\<lambda>x. x) now start"
proof -
  define n where "n = now - start"
  define x :: rat where "x = of_int n / 1000"
  have n: "\<bar>n\<bar> \<le> 2 ^ 40" using assms by (simp add: n_def)
  have d: "elapsed_seconds binary64 now start = max 0 (js_round (binary64 x))"
    by (simp add: elapsed_seconds_def x_def n_def)
  have ex: "elapsed_seconds (\<lambda>x. x) now start = max 0 (js_round x)"
    by (simp add: elapsed_seconds_def x_def n_def)
  show ?thesis
  proof (cases "n \<le> 0")
    case True
    then have "x \<le> 0" by (simp add: x_def)
    then have "binary64 x \<le> 0" by (rule binary64_nonpos)
    then have "js_round (binary64 x) \<le> 0" unfolding js_round_def by linarith
    moreover from \<open>x \<le> 0\<close> have "js_round x \<le> 0" unfolding js_round_def by linarith
    ultimately show ?thesis by (simp add: d ex)
  next
    case False
    then have pos: "0 < n" by simp
    then have x0: "0 \<le> x" by (simp add: x_def)
    define k where "k = (n + 500) div 1000"
    define r where "r = (n + 500) mod 1000"
    have r: "0 \<le> r" "r < 1000" by (simp_all add: r_def)
    have "n + 500 = k * 1000 + r" by (simp add: k_def r_def)
    then have "of_int (n + 500) = (of_int (k * 1000 + r) :: rat)" by simp
    then have xk: "x + 1 / 2 = of_int k + of_int r / 1000" by (simp add: x_def)
    show ?thesis
    proof (cases "r = 0")
      case True
      with xk have "x = of_int (2 * k - 1) / 2" by simp
      moreover have "\<bar>2 * k - 1\<bar> \<le> 2 ^ 53"
        using n pos by (simp add: k_def)
      ultimately have "binary64 x = x" by (simp only: binary64_half_exact)
      then show ?thesis by (simp add: d ex)
    next
      case False
      with r have r1: "1 \<le> r" "r \<le> 999" by simp_all
      have "(of_int \<bar>n\<bar> :: rat) \<le> 2 ^ 40"
        using n by (metis of_int_le_iff of_int_numeral of_int_power)
      then have "\<bar>x\<bar> \<le> 2 ^ 40 / 1000" by (simp add: x_def)
      then have "\<bar>x\<bar> / 2 ^ 53 < 1 / 1000" by simp
      with binary64_error [of x] have e: "\<bar>binary64 x - x\<bar> < 1 / 1000" by linarith
      have lo: "of_int k + 1 / 1000 \<le> x + 1 / 2" and hi: "x + 1 / 2 \<le> of_int k + 999 / 1000"
        using r1 by (simp_all add: xk)
      have "js_round x = k" unfolding js_round_def using lo hi by linarith
      moreover have "js_round (binary64 x) = k"
        unfolding js_round_def using lo hi e by linarith
      ultimately show ?thesis by (simp add: d ex)
    qed
  qed
qed

text \<open>Claim C6, as stated, fails on the code, which computes with doubles. With 23 bytes
  written of 40 the claim's formula gives \<open>round(57.5) = 58\<close>; the quotient \<open>23 / 40\<close>
  as a double is a little below 0.575, its product with 100 is the double just under 57.5,
  and the polling callback stores 57.\<close>

theorem poll_percent_counterexample:
  "inputSize wide_task = 40
   \<and> files wide_world (outputPath wide_task) = Some (replicate 23 1)
   \<and> min 100 (js_round (100 * of_int 23 / of_int 40)) = 58
   \<and> map_option progress
        (transcodeJobs (snd (on_tick sample_libs 5800 wide_task wide_world)) ''a'') = Some 57"
  by code_simp

text \<open>Claim C6, amended: the arithmetic is that of doubles, every operation rounded. A
  firing of the polling timer for a task with a known input size above 0 and a job in the
  table stores: as \<open>progress\<close> the value \<open>Math.min(100, Math.round((outSize /
  inputSize) * 100))\<close>, where \<open>outSize\<close> is the size of the output file (0 while it is
  missing); this value lies between 0 and 100 and differs by at most 1 from
  \<open>min(100, round(100 * outSize / inputSize))\<close> in exact arithmetic. As \<open>elapsed\<close>
  it stores the seconds \<open>e\<close> between the start of the task and now, rounded and not
  below 0; here doubles and exact arithmetic agree while the two clock values are at most
  \<open>2^40\<close> milliseconds apart. As \<open>eta\<close> it stores \<open>null\<close> when the percent is 0 and otherwise
  \<open>Math.max(0, Math.round(e * (100 / percent)) - e)\<close>, which differs by at most 1 from
  \<open>round(e * (100 / percent) - e)\<close> in exact arithmetic as long as \<open>e\<close> is at most
  \<open>2^40\<close> seconds.\<close>

theorem poll_estimates:
  assumes "fl lb = binary64"
    and "polling t" and "0 < inputSize t" and "jobId t \<noteq> []"
    and "transcodeJobs w (jobId t) = Some j"
    and "outSize = (case files w (outputPath t) of None \<Rightarrow> 0 | Some b \<Rightarrow> int (length b))"
    and "e = max 0 (js_round (binary64 (of_int (now - startTime t) / 1000)))"
    and "pct = min 100 (js_round (binary64 (binary64 (of_int outSize / of_int (inputSize t)) * 100)))"
  shows "transcodeJobs (snd (on_tick lb now t w)) (jobId t) =
           Some (j\<lparr>progress := pct, elapsed := Some e,
                   eta := (if pct > 0
                           then Eta (max 0 (js_round (binary64 (of_int e * binary64 (100 / of_int pct)))
                                            - e))
                           else EtaNull)\<rparr>)
       \<and> \<bar>pct - min 100 (js_round (100 * of_int outSize / of_int (inputSize t)))\<bar> \<le> 1
       \<and> 0 \<le> pct \<and> pct \<le> 100
       \<and> (\<bar>now - startTime t\<bar> \<le> 2 ^ 40 \<longrightarrow>
            e = max 0 (js_round (of_int (now - startTime t) / 1000)))
       \<and> (0 < pct \<and> e \<le> 2 ^ 40 \<longrightarrow>
            \<bar>max 0 (js_round (binary64 (of_int e * binary64 (100 / of_int pct))) - e)
              - js_round (of_int e * (100 / of_int pct) - of_int e)\<bar> \<le> 1)"
proof -
  have out: "0 \<le> outSize" using assms(6) by (simp split: option.splits)
  have pct: "pct = percent_estimate binary64 outSize (inputSize t)"
    using assms(8) by (simp add: percent_estimate_def)
  have e: "e = elapsed_seconds binary64 now (startTime t)"
    using assms(7) by (simp add: elapsed_seconds_def)
  have e0: "0 \<le> e" using assms(7) by simp
  have p0: "0 \<le> pct" and p100: "pct \<le> 100"
    using percent_estimate_double_bounds [OF out assms(3)] pct by simp_all
  have x: "percent_estimate (\<lambda>x. x) outSize (inputSize t) =
             min 100 (js_round (100 * of_int outSize / of_int (inputSize t)))"
    by (simp add: percent_estimate_def mult.commute)
  have near: "\<bar>pct - min 100 (js_round (100 * of_int outSize / of_int (inputSize t)))\<bar> \<le> 1"
    using percent_estimate_within_one [OF out assms(3)] by (simp only: pct x)
  have eta: "eta_estimate binary64 e pct =
               max 0 (js_round (binary64 (of_int e * binary64 (100 / of_int pct))) - e)"
    by (simp add: eta_estimate_def)
  have eta_near: "\<bar>max 0 (js_round (binary64 (of_int e * binary64 (100 / of_int pct))) - e)
              - js_round (of_int e * (100 / of_int pct) - of_int e)\<bar> \<le> 1"
    if "0 < pct \<and> e \<le> 2 ^ 40"
  proof -
    from that have p: "0 < pct" and b: "e \<le> 2 ^ 40" by simp_all
    from eta_estimate_within_one [OF e0 b p p100] eta_estimate_exact [OF e0 p p100]
    show ?thesis by (simp only: eta)
  qed
  have job: "has_job (jobId t) w"
    using assms(4,5) by (simp add: has_job_def truthy_def)
  have "transcodeJobs (snd (on_tick lb now t w)) (jobId t) =
           Some (j\<lparr>progress := pct, elapsed := Some e,
                   eta := (if pct > 0 then Eta (eta_estimate binary64 e pct) else EtaNull)\<rparr>)"
    using assms(2,3,5) job
    by (simp add: on_tick_def Let_def assms(1) pct [symmetric] e [symmetric] assms(6) [symmetric]
        transcodeJobs_update_job)
  moreover have "e = max 0 (js_round (of_int (now - startTime t) / 1000))"
    if "\<bar>now - startTime t\<bar> \<le> 2 ^ 40"
    using elapsed_seconds_exact [OF that] by (simp only: e [symmetric]) (simp add: elapsed_seconds_def)
  ultimately show ?thesis
    using near p0 p100 eta_near by (simp only: eta) blast
qed

theorem poll_estimates_witness:
  "transcodeJobs (snd (on_tick sample_libs 5800 wide_task wide_world)) ''a'' =
     Some (running_job\<lparr>progress := 57, elapsed := Some 1, eta := Eta 1\<rparr>)
   \<and> \<bar>57 - min 100 (js_round (100 * of_int 23 / of_int 40))\<bar> \<le> (1::int)"
proof -
  have d: "fl sample_libs = binary64" by (simp add: sample_libs_def)
  have j: "transcodeJobs wide_world (jobId wide_task) = Some running_job"
    by (simp add: wide_world_def busy_world_def wide_task_def polling_task_def)
  have out: "(23::int) = (case files wide_world (outputPath wide_task) of
                          None \<Rightarrow> 0 | Some b \<Rightarrow> int (length b))"
    by (simp add: wide_world_def wide_task_def polling_task_def)
  have e: "(1::int) = max 0 (js_round (binary64 (of_int (5800 - startTime wide_task) / 1000)))"
    by code_simp
  have p: "(57::int) = min 100 (js_round (binary64 (binary64 (of_int 23 / of_int (inputSize wide_task)) * 100)))"
    by code_simp
  have r: "max 0 (js_round (binary64 (of_int 1 * binary64 (100 / of_int 57))) - 1) = 1"
    by code_simp
  have i: "inputSize wide_task = 40" "jobId wide_task = ''a''"
    by (simp_all add: wide_task_def polling_task_def)
  have "polling wide_task" "0 < inputSize wide_task" "jobId wide_task \<noteq> []"
    by (simp_all add: wide_task_def polling_task_def)
  note T = poll_estimates [OF d this j out e p]
  have "transcodeJobs (snd (on_tick sample_libs 5800 wide_task wide_world)) ''a'' =
     Some (running_job\<lparr>progress := 57, elapsed := Some 1, eta := Eta 1\<rparr>)"
    using T [THEN conjunct1] by (simp only: r i) simp
  moreover have "\<bar>57 - min 100 (js_round (100 * of_int 23 / of_int 40))\<bar> \<le> (1::int)"
    using T [THEN conjunct2, THEN conjunct1] by (simp only: i)
  ultimately show ?thesis by blast
qed

section \<open>Job creation\<close>

lemma schedule_transcode_jobs:
  "transcodeJobs (snd (schedule_transcode ident finalName now w)) =
     (transcodeJobs w)(ident \<mapsto>
        (case transcodeJobs w ident of None \<Rightarrow> queued_job | Some j \<Rightarrow> j)
          \<lparr>status := Running, message := ''remux/re-encode (simple)''\<rparr>)"
  by (simp add: schedule_transcode_def Let_def transcodeJobs_update_job)

lemma main_schedule_transcode_jobs:
  "transcodeJobs (snd (main_schedule_transcode ident finalName now w)) =
     (transcodeJobs w)(ident \<mapsto> queued_job\<lparr>status := Running, message := ''starting''\<rparr>)"
  by (simp add: main_schedule_transcode_def Let_def transcodeJobs_update_job)

lemma main_schedule_transcode_frame:
  "files (snd (main_schedule_transcode ident finalName now w)) = files w"
  "data_json (snd (main_schedule_transcode ident finalName now w)) = data_json w"
  "data_writable (snd (main_schedule_transcode ident finalName now w)) = data_writable w"
  by (simp_all add: main_schedule_transcode_def Let_def)

lemma schedule_transcode_frame:
  "files (snd (schedule_transcode ident finalName now w)) = files w"
  "data_json (snd (schedule_transcode ident finalName now w)) = data_json w"
  "data_writable (snd (schedule_transcode ident finalName now w)) = data_writable w"
  by (simp_all add: schedule_transcode_def Let_def)

text \<open>Claim C3, as stated, fails on the code: nothing in it answers \<open>AlreadyExists\<close>. An
  upload whose identifier already has a running job is answered 200 like any other, and
  the job that was there has its message overwritten.\<close>

theorem upload_existing_job_counterexample:
  "transcodeJobs busy_world ''a'' = Some running_job
   \<and> fst (upload sample_libs ''a'' 5000 (Some avi_upload) busy_world) =
       Uploaded \<lparr>id_m = ''a'', filename = ''a.avi'', originalName = ''clip.avi'',
                 mime = ''video/x-msvideo'', size_m = 4, createdAt = 5000, converted = False\<rparr>
   \<and> transcodeJobs (snd (snd (upload sample_libs ''a'' 5000 (Some avi_upload) busy_world))) ''a'' =
       Some (running_job\<lparr>message := ''remux/re-encode (simple)''\<rparr>)
   \<and> running_job\<lparr>message := ''remux/re-encode (simple)''\<rparr> \<noteq> running_job"
proof -
  have w: "data_writable busy_world" "files busy_world ''tmp1'' = Some [1, 2, 3, 4]"
    "transcodeJobs busy_world ''a'' = Some running_job" "data_json busy_world = Some Map.empty"
    by (simp_all add: busy_world_def upload_world_def empty_world_def)
  have l: "toLowerCase sample_libs (extname sample_libs ''clip.avi'') = ''.avi''"
    "lookup sample_libs ''a.avi'' = None"
    by (simp_all add: sample_libs_def)
  have "running_job\<lparr>message := ''remux/re-encode (simple)''\<rparr> \<noteq> running_job"
    by (simp add: running_job_def)
  moreover have "running_job\<lparr>status := Running, message := ''remux/re-encode (simple)''\<rparr>
      = running_job\<lparr>message := ''remux/re-encode (simple)''\<rparr>"
    by (simp add: running_job_def)
  ultimately show ?thesis
    using w l
    by (simp add: upload_def upload_with_def avi_upload_def Let_def supportedExts_def
        writeData_def readData_def truthy_def schedule_transcode_jobs schedule_transcode_frame
        split_beta)
qed

text \<open>Claim C3, amended. Job creation cannot fail. For the upload of a file whose extension
  is not supported, once the uploaded file is in place, the handler keeps the job entry the
  identifier already has, or makes a queued one when it has none, and the background task
  at once sets that entry's status to \<open>running\<close> and its message to the remux notice;
  the entry's other fields and the jobs of all other identifiers stay as they were. The
  request is answered 200 with the new record when the registry can be written. The
  handler of \<open>src/main.js\<close> does not fail either: it puts a new queued job in the place
  of whatever entry was there and sets it running.\<close>

theorem upload_keeps_job_entry:
  assumes "files w (tmp_filename f) = Some bytes"
    and "toLowerCase lb (extname lb (originalname f)) \<notin> set supportedExts"
  shows "transcodeJobs (snd (snd (upload lb ident now (Some f) w))) ident =
           Some ((case transcodeJobs w ident of None \<Rightarrow> queued_job | Some j \<Rightarrow> j)
                   \<lparr>status := Running, message := ''remux/re-encode (simple)''\<rparr>)
       \<and> (\<forall>k. k \<noteq> ident \<longrightarrow>
             transcodeJobs (snd (snd (upload lb ident now (Some f) w))) k = transcodeJobs w k)
       \<and> (data_writable w \<longrightarrow>
             (\<exists>r. fst (upload lb ident now (Some f) w) = Uploaded r \<and> id_m r = ident
                  \<and> \<not> converted r))
       \<and> transcodeJobs (snd (snd (main_upload lb ident now (Some f) w))) ident =
           Some (queued_job\<lparr>status := Running, message := ''starting''\<rparr>)
       \<and> (data_writable w \<longrightarrow>
             (\<exists>r. fst (main_upload lb ident now (Some f) w) = Uploaded r \<and> id_m r = ident
                  \<and> \<not> converted r))"
  using assms
  by (simp add: upload_def main_upload_def upload_with_def Let_def writeData_def
      schedule_transcode_jobs schedule_transcode_frame main_schedule_transcode_jobs
      main_schedule_transcode_frame split_beta)

theorem upload_keeps_job_entry_witness:
  "transcodeJobs (snd (snd (upload sample_libs ''a'' 5000 (Some avi_upload) upload_world))) ''a'' =
     Some (queued_job\<lparr>status := Running, message := ''remux/re-encode (simple)''\<rparr>)
   \<and> transcodeJobs (snd (snd (upload sample_libs ''a'' 5000 (Some avi_upload) upload_world))) ''b'' =
       None"
proof -
  have f: "files upload_world (tmp_filename avi_upload) = Some [1, 2, 3, 4]"
    by (simp add: upload_world_def empty_world_def avi_upload_def)
  have x: "toLowerCase sample_libs (extname sample_libs (originalname avi_upload))
             \<notin> set supportedExts"
    by (simp add: sample_libs_def avi_upload_def supportedExts_def)
  have j: "transcodeJobs upload_world = Map.empty"
    by (simp add: upload_world_def empty_world_def)
  from upload_keeps_job_entry [OF f x, of "''a''" 5000]
  show ?thesis by (simp add: j)
qed

section \<open>The metadata update after a transcode\<close>

lemma replace_and_update_success:
  assumes "data_json w = Some d" and "d (jobId t) = Some r"
    and "files w (outputPath t) = Some out" and "inputPath t \<noteq> outputPath t"
    and "data_writable w"
  shows "replace_and_update lb t w =
           Inr (w\<lparr>files := (files w)(inputPath t := None),
                  data_json := Some (d(jobId t \<mapsto> converted_record lb (outputPath t) out r))\<rparr>)"
  using assms by (simp add: replace_and_update_def Let_def readData_def writeData_def)

lemma task_failed_frame:
  "files (task_failed msg t w) = files w"
  "data_json (task_failed msg t w) = data_json w"
  by (simp_all add: task_failed_def)

lemma on_end_registry:
  assumes "\<not> settled t" and "data_json w = Some d" and "d (jobId t) = Some r"
    and "files w (outputPath t) = Some out" and "inputPath t \<noteq> outputPath t"
    and "data_writable w"
  shows "data_json (snd (handle lb (FfEnd now) (t, w))) =
           Some (d(jobId t \<mapsto> converted_record lb (outputPath t) out r))"
proof -
  let ?w1 = "if has_job (jobId t) w then
               broadcastStatus (jobId t)
                 (update_job (jobId t)
                    (\<lambda>j. j\<lparr>progress := 100,
                            elapsed := Some (elapsed_seconds (fl lb) now (startTime t)),
                            eta := Eta 0\<rparr>) w)
             else w"
  have "data_json ?w1 = Some d" "files ?w1 (outputPath t) = Some out" "data_writable ?w1"
    using assms by simp_all
  from replace_and_update_success [OF this(1) assms(3) this(2) assms(5) this(3)]
  show ?thesis
    using assms(1) by (simp add: on_end_def Let_def task_succeeded_def)
qed

lemma main_on_end_registry:
  assumes "\<not> settled t" and "data_json w = Some d" and "d (jobId t) = Some r"
    and "files w (outputPath t) = Some out" and "inputPath t \<noteq> outputPath t"
    and "data_writable w"
  shows "data_json (snd (main_handle lb (FfEnd now) (t, w))) =
           Some (d(jobId t \<mapsto> converted_record lb (outputPath t) out r))"
proof -
  let ?w1 = "main_end_callback t w"
  have "data_json ?w1 = Some d" "files ?w1 (outputPath t) = Some out" "data_writable ?w1"
    using assms by (simp_all add: main_end_callback_def)
  from replace_and_update_success [OF this(1) assms(3) this(2) assms(5) this(3)]
  show ?thesis
    using assms(1) by (simp add: main_on_end_def Let_def)
qed

lemma on_error_frame:
  "data_json (snd (handle lb (FfError msg) (t, w))) = data_json w"
  "files (snd (handle lb (FfError msg) (t, w))) = files w"
  by (simp_all add: on_error_def task_failed_frame)

lemma main_on_error_frame:
  "data_json (snd (main_handle lb (FfError msg) (t, w))) = data_json w"
  "files (snd (main_handle lb (FfError msg) (t, w))) = files w"
  by (simp_all add: main_on_error_def Let_def)

lemma get_v_whole_file:
  assumes "d ident = Some r" and "uploads (filename r) = Some bytes"
  shows "get_v mime_lookup d uploads ident None =
           Media \<lparr>status_code = 200, accept_ranges = Some ''bytes'',
                  content_type = Some (contentType mime_lookup r), content_range = None,
                  content_length = Some (int (length bytes)), body = bytes\<rparr>"
  using assms by (simp add: get_v_def Let_def)

text \<open>Two ways a transcode can end, in which the registry is left as it should be. The
  record \<open>r\<close> of the task's identifier is in the registry. When the encoder ends, the converted file \<open>out\<close>
  is there and the registry can be written, the registry after the \<open>end\<close> event is the
  one before with the record's \<open>filename\<close>, \<open>mime\<close>, \<open>size\<close> and \<open>converted\<close>
  replaced together in one write: \<open>id\<close>, \<open>originalName\<close> and \<open>createdAt\<close> of the
  record and every other record are as before. When the encoder fails, whatever the state
  of the output and of the disk, the registry and the files are as before, and
  \<open>GET /v/:id\<close> still answers with the uploaded file \<open>orig\<close>. Both hold for the task
  of \<open>src/unnamed/part_000\<close> (\<open>handle\<close>) and for the one of \<open>src/main.js\<close>
  (\<open>main_handle\<close>).\<close>

lemma transcode_end_updates_record:
  assumes "\<not> settled t" and "data_json w = Some d" and "d (jobId t) = Some r"
    and "files w (outputPath t) = Some out" and "inputPath t \<noteq> outputPath t"
    and "data_writable w"
  shows "readData (snd (handle lb (FfEnd now) (t, w))) =
           d(jobId t \<mapsto> r\<lparr>filename := outputPath t,
                            mime := (case lookup lb (outputPath t) of
                                       Some m \<Rightarrow> m | None \<Rightarrow> mime r),
                            size_m := int (length out), converted := True\<rparr>)"
    and "readData (snd (main_handle lb (FfEnd now) (t, w))) =
           d(jobId t \<mapsto> r\<lparr>filename := outputPath t,
                            mime := (case lookup lb (outputPath t) of
                                       Some m \<Rightarrow> m | None \<Rightarrow> mime r),
                            size_m := int (length out), converted := True\<rparr>)"
  using on_end_registry [OF assms] main_on_end_registry [OF assms]
  by (simp_all add: readData_def converted_record_def del: handle.simps main_handle.simps)

lemma encoder_error_keeps_record:
  assumes "data_json w = Some d" and "d (jobId t) = Some r"
    and "files w (filename r) = Some orig"
  shows "readData (snd (handle lb (FfError msg) (t, w))) = d"
    and "readData (snd (main_handle lb (FfError msg) (t, w))) = d"
    and "get_v (lookup lb) (readData (snd (handle lb (FfError msg) (t, w))))
             (files (snd (handle lb (FfError msg) (t, w)))) (jobId t) None =
           Media \<lparr>status_code = 200, accept_ranges = Some ''bytes'',
                  content_type = Some (contentType (lookup lb) r), content_range = None,
                  content_length = Some (int (length orig)), body = orig\<rparr>"
    and "get_v (lookup lb) (readData (snd (main_handle lb (FfError msg) (t, w))))
             (files (snd (main_handle lb (FfError msg) (t, w)))) (jobId t) None =
           Media \<lparr>status_code = 200, accept_ranges = Some ''bytes'',
                  content_type = Some (contentType (lookup lb) r), content_range = None,
                  content_length = Some (int (length orig)), body = orig\<rparr>"
proof -
  have rd: "readData w = d" using assms(1) by (simp add: readData_def)
  show c: "readData (snd (handle lb (FfError msg) (t, w))) = d"
    using rd by (simp only: readData_def on_error_frame)
  show e: "readData (snd (main_handle lb (FfError msg) (t, w))) = d"
    using rd by (simp only: readData_def main_on_error_frame)
  have g: "get_v (lookup lb) d (files w) (jobId t) None =
           Media \<lparr>status_code = 200, accept_ranges = Some ''bytes'',
                  content_type = Some (contentType (lookup lb) r), content_range = None,
                  content_length = Some (int (length orig)), body = orig\<rparr>"
    using assms(2,3) by (rule get_v_whole_file)
  show "get_v (lookup lb) (readData (snd (handle lb (FfError msg) (t, w))))
             (files (snd (handle lb (FfError msg) (t, w)))) (jobId t) None =
           Media \<lparr>status_code = 200, accept_ranges = Some ''bytes'',
                  content_type = Some (contentType (lookup lb) r), content_range = None,
                  content_length = Some (int (length orig)), body = orig\<rparr>"
    using g by (simp only: c on_error_frame)
  show "get_v (lookup lb) (readData (snd (main_handle lb (FfError msg) (t, w))))
             (files (snd (main_handle lb (FfError msg) (t, w)))) (jobId t) None =
           Media \<lparr>status_code = 200, accept_ranges = Some ''bytes'',
                  content_type = Some (contentType (lookup lb) r), content_range = None,
                  content_length = Some (int (length orig)), body = orig\<rparr>"
    using g by (simp only: e main_on_error_frame)
qed

text \<open>Claim C9 fails on the code when the transcode fails after the encoder has ended. The
  task unlinks the uploaded file first (\<open>fs.unlinkSync(finalPath)\<close>) and updates the
  record afterwards; when the update throws, here because \<open>data.json\<close> cannot be
  written, the \<open>catch\<close> marks the job \<open>error\<close>. The record is not modified, as the
  claim says, but the file it names is gone: \<open>GET /v/:id\<close>, which served the upload
  before the event, answers with the placeholder page after it, although the converted
  file is in place. This is so in \<open>src/unnamed/part_000\<close> and in \<open>src/main.js\<close>.\<close>

theorem transcode_failure_loses_original:
  "get_v (lookup sample_libs) (readData unwritable_world) (files unwritable_world) ''a'' None =
     Media \<lparr>status_code = 200, accept_ranges = Some ''bytes'',
            content_type = Some ''video/x-msvideo'', content_range = None,
            content_length = Some 4, body = [1, 2, 3, 4]\<rparr>
   \<and> map_option status
        (transcodeJobs (snd (handle sample_libs (FfEnd 6000) (polling_task, unwritable_world)))
           ''a'') = Some Error
   \<and> readData (snd (handle sample_libs (FfEnd 6000) (polling_task, unwritable_world))) ''a'' =
       Some avi_record
   \<and> filename avi_record = ''a.avi''
   \<and> files (snd (handle sample_libs (FfEnd 6000) (polling_task, unwritable_world))) ''a.avi'' =
       None
   \<and> files (snd (handle sample_libs (FfEnd 6000) (polling_task, unwritable_world))) ''a.mp4'' =
       Some [1, 2]
   \<and> get_v (lookup sample_libs)
        (readData (snd (handle sample_libs (FfEnd 6000) (polling_task, unwritable_world))))
        (files (snd (handle sample_libs (FfEnd 6000) (polling_task, unwritable_world))))
        ''a'' None = InvalidEmbed
   \<and> map_option status
        (transcodeJobs
           (snd (main_handle sample_libs (FfEnd 6000) (main_started_task, main_failing_world)))
           ''a'') = Some Error
   \<and> readData
        (snd (main_handle sample_libs (FfEnd 6000) (main_started_task, main_failing_world)))
        ''a'' = Some avi_record
   \<and> get_v (lookup sample_libs)
        (readData
           (snd (main_handle sample_libs (FfEnd 6000) (main_started_task, main_failing_world))))
        (files
           (snd (main_handle sample_libs (FfEnd 6000) (main_started_task, main_failing_world))))
        ''a'' None = InvalidEmbed"
  by code_simp

text \<open>The same in general: whenever the record names the uploaded file and the registry
  cannot be written at the \<open>end\<close> event.\<close>

lemma update_failure_loses_upload:
  assumes "\<not> settled t" and "data_json w = Some d" and "d (jobId t) = Some r"
    and "filename r = inputPath t"
    and "files w (outputPath t) = Some out" and "inputPath t \<noteq> outputPath t"
    and "\<not> data_writable w"
  shows "readData (snd (handle lb (FfEnd now) (t, w))) = d
       \<and> get_v (lookup lb) (readData (snd (handle lb (FfEnd now) (t, w))))
             (files (snd (handle lb (FfEnd now) (t, w)))) (jobId t) None = InvalidEmbed"
proof -
  let ?w1 = "if has_job (jobId t) w then
               broadcastStatus (jobId t)
                 (update_job (jobId t)
                    (\<lambda>j. j\<lparr>progress := 100,
                            elapsed := Some (elapsed_seconds (fl lb) now (startTime t)),
                            eta := Eta 0\<rparr>) w)
             else w"
  have w1: "data_json ?w1 = Some d" "files ?w1 = files w" "\<not> data_writable ?w1"
    using assms by simp_all
  have r: "replace_and_update lb t ?w1 =
             Inl (''EACCES: permission denied, open data.json'',
                  ?w1\<lparr>files := (files w)(inputPath t := None)\<rparr>)"
    using assms(3,5,6) w1
    by (simp add: replace_and_update_def Let_def readData_def writeData_def)
  have e: "snd (handle lb (FfEnd now) (t, w)) =
             task_failed ''EACCES: permission denied, open data.json'' t
               (?w1\<lparr>files := (files w)(inputPath t := None)\<rparr>)"
    using assms(1) by (simp add: on_end_def Let_def task_succeeded_def r)
  have d: "data_json (snd (handle lb (FfEnd now) (t, w))) = Some d"
    unfolding e by (simp add: task_failed_frame w1)
  have f: "files (snd (handle lb (FfEnd now) (t, w))) = (files w)(inputPath t := None)"
    unfolding e by (simp add: task_failed_frame)
  have rd: "readData (snd (handle lb (FfEnd now) (t, w))) = d"
    using d by (simp add: readData_def)
  show ?thesis
    using assms(3,4) by (simp add: rd f get_v_def del: handle.simps)
qed

section \<open>Monotone job status\<close>

lemma forward_refl [simp]: "forward s s"
  by (simp add: forward_def)

lemma forward_trans: "forward a b \<Longrightarrow> forward b c \<Longrightarrow> forward a c"
  by (auto simp: forward_def)

lemma forward_from_final: "forward Done s \<longleftrightarrow> s = Done" "forward Error s \<longleftrightarrow> s = Error"
  by (cases s, simp_all add: forward_def)+

lemma forward_Running [simp]: "forward Running Done" "forward Running Error"
  by (simp_all add: forward_def)

lemma status_trace_append [simp]:
  "status_trace ident (xs @ ys) = status_trace ident xs @ status_trace ident ys"
  by (simp add: status_trace_def)

lemma status_trace_Nil [simp]: "status_trace ident [] = []"
  by (simp add: status_trace_def)

lemma sorted_wrt_all_same:
  "list_all (\<lambda>x. x = s) ys \<Longrightarrow> sorted_wrt forward ys"
  by (induction ys) (auto simp: list_all_iff)

lemma consistent_extend:
  assumes "consistent ident s w"
    and "transcodeJobs w' ident = transcodeJobs w ident"
    and "observed w' = observed w @ obs"
    and "list_all (\<lambda>x. x = s) (status_trace ident obs)"
  shows "consistent ident s w'"
proof -
  from assms(1) have j: "\<exists>j. transcodeJobs w ident = Some j \<and> status j = s"
    and srt: "sorted_wrt forward (status_trace ident (observed w))"
    and all: "list_all (\<lambda>x. forward x s) (status_trace ident (observed w))"
    by (simp_all add: consistent_def)
  have new: "sorted_wrt forward (status_trace ident obs)"
    using assms(4) by (rule sorted_wrt_all_same)
  have cross: "\<forall>x\<in>set (status_trace ident (observed w)).
                 \<forall>y\<in>set (status_trace ident obs). forward x y"
    using all assms(4) by (auto simp: list_all_iff)
  have all': "list_all (\<lambda>x. forward x s) (status_trace ident obs)"
    using assms(4) by (auto simp: list_all_iff)
  show ?thesis
    using j srt all new cross all'
    by (simp add: consistent_def assms(2,3) sorted_wrt_append)
qed

lemma consistent_advance:
  assumes "consistent ident s w"
    and "transcodeJobs w' ident = Some j'" and "forward s (status j')"
    and "observed w' = observed w"
  shows "consistent ident (status j') w'"
proof -
  from assms(1) have srt: "sorted_wrt forward (status_trace ident (observed w))"
    and all: "list_all (\<lambda>x. forward x s) (status_trace ident (observed w))"
    by (simp_all add: consistent_def)
  from all assms(3) have "list_all (\<lambda>x. forward x (status j')) (status_trace ident (observed w))"
    by (auto simp: list_all_iff intro: forward_trans)
  with srt show ?thesis
    by (simp add: consistent_def assms(2,4))
qed

lemma consistent_frame:
  assumes "consistent ident s w"
    and "transcodeJobs w' = transcodeJobs w" and "observed w' = observed w"
  shows "consistent ident s w'"
  using assms by (simp add: consistent_def)

lemma status_trace_send_result:
  "status_trace ident [send_result w i v ws] = (if i = ident then view_status v else [])"
  by (simp add: status_trace_def send_result_def)

lemma status_trace_broadcast_msgs:
  assumes "transcodeJobs w ident = Some j"
  shows "list_all (\<lambda>x. x = status j) (status_trace ident (broadcast_msgs i w))"
proof (cases "subscribers w i")
  case None
  then show ?thesis by (simp add: broadcast_msgs_def)
next
  case (Some conns)
  have "list_all (\<lambda>x. x = status j)
          (status_trace ident (map (send_result w i (job_view_of w i)) cs))" for cs
  proof (induction cs)
    case Nil
    show ?case by simp
  next
    case (Cons c cs)
    have "status_trace ident (map (send_result w i (job_view_of w i)) (c # cs)) =
            status_trace ident [send_result w i (job_view_of w i) c]
            @ status_trace ident (map (send_result w i (job_view_of w i)) cs)"
      by (simp add: status_trace_def)
    with Cons assms show ?case
      by (simp add: status_trace_send_result job_view_of_def)
  qed
  with Some show ?thesis by (simp add: broadcast_msgs_def)
qed

lemma consistent_broadcast:
  assumes "consistent ident s w"
  shows "consistent ident s (broadcastStatus i w)"
proof -
  from assms obtain j where j: "transcodeJobs w ident = Some j" "status j = s"
    by (auto simp: consistent_def)
  have l: "list_all (\<lambda>x. x = s) (status_trace ident (broadcast_msgs i w))"
    using status_trace_broadcast_msgs [OF j(1), of i] j(2) by simp
  show ?thesis
    by (rule consistent_extend [OF assms _ _ l]) (simp_all add: broadcastStatus_eq)
qed

lemma consistent_update_same:
  assumes "consistent ident s w" and "\<And>j. status (f j) = status j"
  shows "consistent ident s (update_job i f w)"
proof -
  from assms(1) obtain j where j: "transcodeJobs w ident = Some j" "status j = s"
    by (auto simp: consistent_def)
  have "\<exists>j'. transcodeJobs (update_job i f w) ident = Some j' \<and> status j' = s"
    using j assms(2) by (auto simp: transcodeJobs_update_job split: option.splits)
  then obtain j' where j': "transcodeJobs (update_job i f w) ident = Some j'" "status j' = s"
    by blast
  from consistent_advance [OF assms(1) j'(1)] j'(2) show ?thesis by simp
qed

lemma consistent_update_status:
  assumes "consistent ident s w" and "\<And>j. status (f j) = s'" and "forward s s'"
  shows "consistent ident s' (update_job ident f w)"
proof -
  from assms(1) obtain j where j: "transcodeJobs w ident = Some j"
    by (auto simp: consistent_def)
  then have "transcodeJobs (update_job ident f w) ident = Some (f j)"
    by (simp add: transcodeJobs_update_job)
  from consistent_advance [OF assms(1) this] assms(2,3) show ?thesis by simp
qed

lemma consistent_transcode_status:
  assumes "consistent ident s w"
  shows "consistent ident s (transcode_status i w)"
proof -
  from assms obtain j where j: "transcodeJobs w ident = Some j" "status j = s"
    by (auto simp: consistent_def)
  have l: "list_all (\<lambda>x. x = s) (status_trace ident [Polled i (job_view_of w i)])"
    by (simp add: status_trace_def job_view_of_def j)
  show ?thesis
    by (rule consistent_extend [OF assms _ _ l]) (simp_all add: transcode_status_def)
qed

lemma on_message_subscribe:
  assumes "truthy i"
  shows "on_message ws (Data ''subscribe'' i) w =
     (w\<lparr>subscribers := (subscribers w)(i \<mapsto> set_add ws (case subscribers w i of None \<Rightarrow> [] | Some s \<Rightarrow> s)),
        subscribedId := (subscribedId w)(ws \<mapsto> i),
        observed := observed w @ [send_result w i (job_view_of w i) ws]\<rparr>)"
  using assms
  by (simp add: on_message_def Let_def ws_send_def send_result_def job_view_of_def)

lemma on_message_other:
  assumes "\<not> (ty = ''subscribe'' \<and> truthy i)"
  shows "on_message ws (Data ty i) w =
        (if ty = ''unsubscribe'' \<and> truthy i then
           (case subscribers w i of
              None \<Rightarrow> w
            | Some c \<Rightarrow> w\<lparr>subscribers := (subscribers w)(i \<mapsto> set_delete ws c)\<rparr>)
         else w)"
  by (simp only: on_message_def client_data.case assms if_False sum.case)

lemma on_message_other_frame:
  assumes "\<not> (ty = ''subscribe'' \<and> truthy i)"
  shows "transcodeJobs (on_message ws (Data ty i) w) = transcodeJobs w"
      "observed (on_message ws (Data ty i) w) = observed w"
  by (simp_all add: on_message_other [OF assms] split: option.splits)

lemma ws_closed_frame:
   "transcodeJobs (ws_closed ws w) = transcodeJobs w"
    "observed (ws_closed ws w) = observed w"
    by (simp_all add: ws_closed_def on_close_def split: option.splits)

lemma consistent_on_message:
  assumes "consistent ident s w"
  shows "consistent ident s (on_message ws msg w)"
proof (cases msg)
  case Unparsable
  with assms show ?thesis by (simp add: on_message_def)
next
  case (Data ty i)
  from assms obtain j where j: "transcodeJobs w ident = Some j" "status j = s"
    by (auto simp: consistent_def)
  show ?thesis
  proof (cases "ty = ''subscribe'' \<and> truthy i")
    case True
    have l: "list_all (\<lambda>x. x = s) (status_trace ident [send_result w i (job_view_of w i) ws])"
      by (simp add: status_trace_send_result job_view_of_def j)
    from True have m: "msg = Data ''subscribe'' i" and i: "truthy i"
      by (simp_all add: Data)
    show ?thesis
      by (rule consistent_extend [OF assms _ _ l])
        (simp_all add: m on_message_subscribe [OF i])
  next
    case False
    show ?thesis
      unfolding Data
      by (rule consistent_frame [OF assms]) (simp_all add: on_message_other_frame [OF False])
  qed
qed

lemma consistent_ws_closed:
  assumes "consistent ident s w"
  shows "consistent ident s (ws_closed ws w)"
  by (rule consistent_frame [OF assms]) (simp_all add: ws_closed_frame)

lemma consistent_empty:
  assumes "status_trace ident (observed w) = []" and "transcodeJobs w ident = Some j"
  shows "consistent ident (status j) w"
  using assms by (simp add: consistent_def)

lemma consistent_quiet:
  assumes "consistent ident s w" and "\<And>j. status (f j) = status j"
  shows "consistent ident s (broadcastStatus i (update_job i' f w))"
  by (intro consistent_broadcast consistent_update_same assms)

lemma replace_and_update_frame:
  "case replace_and_update lb t w of
     Inl (msg, w2) \<Rightarrow> transcodeJobs w2 = transcodeJobs w \<and> observed w2 = observed w
   | Inr w2 \<Rightarrow> transcodeJobs w2 = transcodeJobs w \<and> observed w2 = observed w"
  by (simp add: replace_and_update_def Let_def writeData_def split: option.splits)

lemma task_failed_consistent:
  assumes "consistent (jobId t) Running w"
  shows "consistent (jobId t) Error (task_failed msg t w)"
  unfolding task_failed_def
  by (intro consistent_broadcast consistent_update_status [OF assms]) simp_all

lemma task_succeeded_consistent:
  assumes "consistent (jobId t) Running w"
  shows "consistent (jobId t) Done (task_succeeded lb t w)
       \<or> consistent (jobId t) Error (task_succeeded lb t w)"
proof (cases "replace_and_update lb t w")
  case (Inl a)
  obtain msg w2 where a: "a = (msg, w2)" by (cases a)
  from replace_and_update_frame [where lb = lb and t = t and w = w] Inl a
  have "transcodeJobs w2 = transcodeJobs w" "observed w2 = observed w" by simp_all
  with assms have "consistent (jobId t) Running w2" by (rule consistent_frame)
  then have "consistent (jobId t) Error (task_failed msg t w2)"
    by (rule task_failed_consistent)
  then show ?thesis by (simp add: task_succeeded_def Inl a)
next
  case (Inr w2)
  from replace_and_update_frame [where lb = lb and t = t and w = w] Inr
  have "transcodeJobs w2 = transcodeJobs w" "observed w2 = observed w" by simp_all
  with assms have c: "consistent (jobId t) Running w2" by (rule consistent_frame)
  have "consistent (jobId t) Done
          (broadcastStatus (jobId t)
             (update_job (jobId t)
                (\<lambda>j. j\<lparr>status := Done, progress := 100, message := ''finished''\<rparr>) w2))"
    by (intro consistent_broadcast consistent_update_status [OF c]) simp_all
  then show ?thesis by (simp add: task_succeeded_def Inr)
qed

lemma handle_quiet:
  assumes "consistent ident s w" and "\<not> terminal ev"
  shows "consistent ident s (snd (handle lb ev (t, w)))
       \<and> jobId (fst (handle lb ev (t, w))) = jobId t
       \<and> settled (fst (handle lb ev (t, w))) = settled t"
proof (cases ev)
  case (FfStart now)
  then show ?thesis
    using assms(1) by (simp add: on_start_def consistent_quiet)
next
  case (Tick now)
  then show ?thesis
    using assms(1) by (simp add: on_tick_def Let_def consistent_quiet)
next
  case (FfProgress pc tm)
  then show ?thesis
    using assms(1) by (simp add: on_progress_def consistent_quiet)
next
  case (OutputWritten bytes)
  have "consistent ident s (w\<lparr>files := (files w)(outputPath t \<mapsto> bytes)\<rparr>)"
    by (rule consistent_frame [OF assms(1)]) simp_all
  with OutputWritten show ?thesis by simp
next
  case (FfEnd now)
  with assms(2) show ?thesis by simp
next
  case (FfError msg)
  with assms(2) show ?thesis by simp
next
  case GetStatus
  then show ?thesis
    using assms(1) by (simp add: consistent_transcode_status)
next
  case (WsMessage ws msg)
  then show ?thesis
    using assms(1) by (simp add: consistent_on_message)
next
  case (WsClosed ws)
  then show ?thesis
    using assms(1) by (simp add: consistent_ws_closed)
qed

lemma on_end_settled:
  assumes "consistent ident s w" and "settled t"
  shows "consistent ident s (snd (on_end lb now t w))
       \<and> jobId (fst (on_end lb now t w)) = jobId t
       \<and> settled (fst (on_end lb now t w))"
  using assms by (simp add: on_end_def Let_def consistent_quiet)

lemma on_end_pending:
  assumes "consistent (jobId t) Running w" and "\<not> settled t"
  shows "(consistent (jobId t) Done (snd (on_end lb now t w))
          \<or> consistent (jobId t) Error (snd (on_end lb now t w)))
       \<and> jobId (fst (on_end lb now t w)) = jobId t
       \<and> settled (fst (on_end lb now t w))"
proof -
  let ?w1 = "if has_job (jobId t) w then
               broadcastStatus (jobId t)
                 (update_job (jobId t)
                    (\<lambda>j. j\<lparr>progress := 100,
                            elapsed := Some (elapsed_seconds (fl lb) now (startTime t)),
                            eta := Eta 0\<rparr>) w)
             else w"
  have "consistent (jobId t) Running ?w1"
    using assms(1) by (simp add: consistent_quiet)
  from task_succeeded_consistent [OF this, where lb = lb]
  show ?thesis
    using assms(2) by (simp add: on_end_def Let_def)
qed

lemma on_error_inv:
  assumes "task_inv ident (t, w)"
  shows "task_inv ident (on_error msg t w)"
proof (cases "settled t")
  case True
  with assms show ?thesis by (simp add: task_inv_def on_error_def)
next
  case False
  with assms have "jobId t = ident" and "consistent (jobId t) Running w"
    by (simp_all add: task_inv_def)
  then show ?thesis
    using False task_failed_consistent [of t w "error_text msg"]
    by (simp add: task_inv_def on_error_def)
qed

lemma handle_inv:
  assumes "task_inv ident (t, w)"
  shows "task_inv ident (handle lb ev (t, w))"
proof (cases "terminal ev")
  case False
  show ?thesis
  proof (cases "settled t")
    case True
    with assms have "consistent ident Done w \<or> consistent ident Error w"
      by (simp add: task_inv_def)
    then show ?thesis
      using handle_quiet [OF _ False, where ident = ident and w = w and lb = lb and t = t] assms True
      by (auto simp: task_inv_def)
  next
    case pending: False
    with assms have "consistent ident Running w" by (simp add: task_inv_def)
    from handle_quiet [OF this False, where lb = lb and t = t] assms pending
    show ?thesis by (simp add: task_inv_def)
  qed
next
  case True
  then consider (fin) now where "ev = FfEnd now" | (err) msg where "ev = FfError msg"
    by (cases ev) auto
  then show ?thesis
  proof cases
    case fin
    show ?thesis
    proof (cases "settled t")
      case True
      with assms have "consistent ident Done w \<or> consistent ident Error w"
        by (simp add: task_inv_def)
      then show ?thesis
        using on_end_settled [OF _ True, where ident = ident and w = w and lb = lb and now = now] assms
        by (auto simp: task_inv_def fin)
    next
      case False
      with assms have "jobId t = ident" "consistent (jobId t) Running w"
        by (simp_all add: task_inv_def)
      with on_end_pending [OF this(2) False, where lb = lb and now = now] show ?thesis
        by (auto simp: task_inv_def fin)
    qed
  next
    case err
    with on_error_inv [OF assms] show ?thesis by simp
  qed
qed

lemma run_inv:
  assumes "task_inv ident tw"
  shows "task_inv ident (run lb evs tw)"
  using assms
proof (induction evs arbitrary: tw)
  case Nil
  then show ?case by (simp add: run_def)
next
  case (Cons ev evs)
  obtain t w where tw: "tw = (t, w)" by (cases tw)
  from Cons.prems have "task_inv ident (handle lb ev tw)"
    unfolding tw by (rule handle_inv)
  then have "task_inv ident (run lb evs (handle lb ev tw))" by (rule Cons.IH)
  then show ?case by (simp add: run_def)
qed

lemma task_inv_sorted:
  assumes "task_inv ident tw"
  shows "sorted_wrt forward (status_trace ident (observed (snd tw)))"
  using assms by (auto simp: task_inv_def consistent_def split: if_splits)

lemma main_handle_quiet:
  assumes "consistent ident s w" and "\<not> terminal ev"
  shows "consistent ident s (snd (main_handle lb ev (t, w)))
       \<and> jobId (fst (main_handle lb ev (t, w))) = jobId t
       \<and> settled (fst (main_handle lb ev (t, w))) = settled t"
proof (cases ev)
  case (FfStart now)
  then show ?thesis
    using assms(1) by (simp add: consistent_update_same)
next
  case (Tick now)
  then show ?thesis using assms(1) by simp
next
  case (FfProgress pc tm)
  then show ?thesis
    using assms(1) by (simp add: consistent_update_same)
next
  case (OutputWritten bytes)
  have "consistent ident s (w\<lparr>files := (files w)(outputPath t \<mapsto> bytes)\<rparr>)"
    by (rule consistent_frame [OF assms(1)]) simp_all
  with OutputWritten show ?thesis by simp
next
  case (FfEnd now)
  with assms(2) show ?thesis by simp
next
  case (FfError msg)
  with assms(2) show ?thesis by simp
next
  case GetStatus
  then show ?thesis
    using assms(1) by (simp add: consistent_transcode_status)
next
  case (WsMessage ws msg)
  then show ?thesis using assms(1) by simp
next
  case (WsClosed ws)
  then show ?thesis using assms(1) by simp
qed

lemma main_on_end_pending:
  assumes "consistent (jobId t) Running w" and "\<not> settled t"
  shows "(consistent (jobId t) Done (snd (main_on_end lb t w))
          \<or> consistent (jobId t) Error (snd (main_on_end lb t w)))
       \<and> jobId (fst (main_on_end lb t w)) = jobId t
       \<and> settled (fst (main_on_end lb t w))"
proof -
  let ?w1 = "main_end_callback t w"
  from assms(1) obtain j where j: "transcodeJobs w (jobId t) = Some j"
    by (auto simp: consistent_def)
  have d: "consistent (jobId t) Done ?w1"
    unfolding main_end_callback_def
    by (rule consistent_update_status [OF assms(1)]) simp_all
  show ?thesis
  proof (cases "replace_and_update lb t ?w1")
    case (Inr w2)
    from replace_and_update_frame [where lb = lb and t = t and w = ?w1] Inr
    have "transcodeJobs w2 = transcodeJobs ?w1" "observed w2 = observed ?w1" by simp_all
    with d have "consistent (jobId t) Done w2" by (rule consistent_frame)
    then show ?thesis
      using assms(2) by (simp add: main_on_end_def Let_def Inr)
  next
    case (Inl a)
    obtain msg w2 where a: "a = (msg, w2)" by (cases a)
    let ?w3 = "update_job (jobId t) (\<lambda>j. j\<lparr>status := Error, message := error_text msg\<rparr>) w2"
    from replace_and_update_frame [where lb = lb and t = t and w = ?w1] Inl a
    have f: "transcodeJobs w2 = transcodeJobs ?w1" "observed w2 = observed ?w1" by simp_all
    have "transcodeJobs ?w3 (jobId t) =
            Some (j\<lparr>status := Error, progress := 100, message := error_text msg\<rparr>)"
      using j by (simp add: transcodeJobs_update_job f main_end_callback_def)
    moreover have "observed ?w3 = observed w" by (simp add: f main_end_callback_def)
    ultimately have "consistent (jobId t)
        (status (j\<lparr>status := Error, progress := 100, message := error_text msg\<rparr>)) ?w3"
      by (intro consistent_advance [OF assms(1)]) simp_all
    then have "consistent (jobId t) Error ?w3" by simp
    then show ?thesis
      using assms(2) by (simp add: main_on_end_def Let_def Inl a)
  qed
qed

lemma main_on_error_pending:
  assumes "consistent (jobId t) Running w" and "\<not> settled t"
  shows "consistent (jobId t) Error (snd (main_on_error msg t w))
       \<and> jobId (fst (main_on_error msg t w)) = jobId t
       \<and> settled (fst (main_on_error msg t w))"
proof -
  let ?w1 = "update_job (jobId t) (\<lambda>j. j\<lparr>status := Error, message := error_text msg\<rparr>) w"
  have "consistent (jobId t) Error ?w1"
    by (rule consistent_update_status [OF assms(1)]) simp_all
  then have "consistent (jobId t) Error
      (update_job (jobId t) (\<lambda>j. j\<lparr>status := Error, message := error_text msg\<rparr>) ?w1)"
    by (rule consistent_update_status) simp_all
  then show ?thesis
    using assms(2) by (simp add: main_on_error_def Let_def)
qed

lemma main_handle_inv:
  assumes "task_inv ident (t, w)" and "terminal ev \<longrightarrow> \<not> settled t"
  shows "task_inv ident (main_handle lb ev (t, w))"
proof (cases "terminal ev")
  case False
  show ?thesis
  proof (cases "settled t")
    case True
    with assms(1) have "consistent ident Done w \<or> consistent ident Error w"
      by (simp add: task_inv_def)
    then show ?thesis
      using main_handle_quiet [OF _ False, where ident = ident and w = w and lb = lb and t = t]
        assms(1) True
      by (auto simp: task_inv_def)
  next
    case pending: False
    with assms(1) have "consistent ident Running w" by (simp add: task_inv_def)
    from main_handle_quiet [OF this False, where lb = lb and t = t] assms(1) pending
    show ?thesis by (simp add: task_inv_def)
  qed
next
  case True
  with assms(2) have pending: "\<not> settled t" by simp
  with assms(1) have r: "jobId t = ident" "consistent (jobId t) Running w"
    by (simp_all add: task_inv_def)
  from True consider (fin) now where "ev = FfEnd now" | (err) msg where "ev = FfError msg"
    by (cases ev) auto
  then show ?thesis
  proof cases
    case fin
    with main_on_end_pending [OF r(2) pending, where lb = lb] r(1) show ?thesis
      by (auto simp: task_inv_def)
  next
    case err
    with main_on_error_pending [OF r(2) pending, where msg = msg] r(1) show ?thesis
      by (auto simp: task_inv_def)
  qed
qed

lemma main_run_inv:
  assumes "task_inv ident tw" and "ends_once evs"
    and "settled (fst tw) \<longrightarrow> filter terminal evs = []"
  shows "task_inv ident (main_run lb evs tw)"
  using assms
proof (induction evs arbitrary: tw)
  case Nil
  then show ?case by (simp add: main_run_def)
next
  case (Cons ev evs)
  obtain t w where tw: "tw = (t, w)" by (cases tw)
  have pend: "terminal ev \<longrightarrow> \<not> settled t"
    using Cons.prems(3) by (auto simp: tw)
  have inv: "task_inv ident (main_handle lb ev tw)"
    unfolding tw by (rule main_handle_inv) (use Cons.prems(1) pend in \<open>simp_all add: tw\<close>)
  have once: "ends_once evs"
    using Cons.prems(2) by (simp add: ends_once_def split: if_splits)
  have rest: "settled (fst (main_handle lb ev tw)) \<longrightarrow> filter terminal evs = []"
  proof (cases "terminal ev")
    case True
    with Cons.prems(2) show ?thesis by (simp add: ends_once_def)
  next
    case False
    have "settled (fst (main_handle lb ev (t, w))) = settled t"
      using False by (cases ev) simp_all
    with Cons.prems(3) False show ?thesis by (simp add: tw)
  qed
  from Cons.IH [OF inv once rest] show ?case by (simp add: main_run_def)
qed

lemma schedule_transcode_inv:
  assumes "status_trace ident (observed w) = []"
  shows "task_inv ident (schedule_transcode ident finalName now w)"
proof -
  let ?j0 = "case transcodeJobs w ident of None \<Rightarrow> queued_job | Some j \<Rightarrow> j"
  let ?w1 = "w\<lparr>transcodeJobs := (transcodeJobs w)(ident \<mapsto> ?j0)\<rparr>"
  let ?w2 = "update_job ident (\<lambda>j. j\<lparr>status := Running, message := ''starting''\<rparr>) ?w1"
  have "transcodeJobs ?w2 ident = Some (?j0\<lparr>status := Running, message := ''starting''\<rparr>)"
    by (simp add: transcodeJobs_update_job)
  moreover have "status_trace ident (observed ?w2) = []" using assms by simp
  ultimately have "consistent ident
      (status (?j0\<lparr>status := Running, message := ''starting''\<rparr>)) ?w2"
    by (intro consistent_empty)
  then have "consistent ident Running ?w2" by simp
  then have "consistent ident Running (broadcastStatus ident ?w2)"
    by (rule consistent_broadcast)
  then have "consistent ident Running
      (broadcastStatus ident
         (update_job ident (\<lambda>j. j\<lparr>message := ''remux/re-encode (simple)''\<rparr>)
            (broadcastStatus ident ?w2)))"
    by (rule consistent_quiet) simp
  then show ?thesis
    by (simp add: task_inv_def schedule_transcode_def Let_def)
qed

lemma main_schedule_transcode_inv:
  assumes "status_trace ident (observed w) = []"
  shows "task_inv ident (main_schedule_transcode ident finalName now w)"
proof -
  let ?w1 = "w\<lparr>transcodeJobs := (transcodeJobs w)(ident \<mapsto> queued_job)\<rparr>"
  let ?w2 = "update_job ident (\<lambda>j. j\<lparr>status := Running, message := ''starting''\<rparr>) ?w1"
  have "transcodeJobs ?w2 ident = Some (queued_job\<lparr>status := Running, message := ''starting''\<rparr>)"
    by (simp add: transcodeJobs_update_job)
  moreover have "status_trace ident (observed ?w2) = []" using assms by simp
  ultimately have "consistent ident
      (status (queued_job\<lparr>status := Running, message := ''starting''\<rparr>)) ?w2"
    by (intro consistent_empty)
  then have "consistent ident Running ?w2" by simp
  then show ?thesis
    by (simp add: task_inv_def main_schedule_transcode_def Let_def)
qed

lemma upload_with_inv:
  assumes sched: "\<And>finalName w1. status_trace ident (observed w1) = []
                    \<Longrightarrow> task_inv ident (schedule ident finalName now w1)"
    and "status_trace ident (observed w) = []"
    and "upload_with schedule lb ident now (Some f) w = (out, Some t, w0)"
  shows "task_inv ident (t, w0)"
proof (cases "files w (tmp_filename f)")
  case None
  with assms(3) show ?thesis by (simp add: upload_with_def Let_def)
next
  case (Some bytes)
  let ?ext = "toLowerCase lb (extname lb (originalname f))"
  let ?w1 = "w\<lparr>files := ((files w)(tmp_filename f := None))(ident @ ?ext \<mapsto> bytes)\<rparr>"
  show ?thesis
  proof (cases "?ext \<in> set supportedExts")
    case True
    with Some assms(3) show ?thesis
      by (simp add: upload_with_def Let_def writeData_def split: if_splits)
  next
    case False
    obtain t1 w2 where s: "schedule ident (ident @ ?ext) now ?w1 = (t1, w2)"
      by (cases "schedule ident (ident @ ?ext) now ?w1")
    have "status_trace ident (observed ?w1) = []" using assms(2) by simp
    from sched [OF this, of "ident @ ?ext"] s have inv: "task_inv ident (t1, w2)" by simp
    from Some False s assms(3)
    have t: "t = t1" and w0: "transcodeJobs w0 = transcodeJobs w2" "observed w0 = observed w2"
      by (auto simp: upload_with_def Let_def writeData_def split: if_splits)
    from inv have "jobId t1 = ident" by (simp add: task_inv_def)
    moreover have "consistent ident s w0" if "consistent ident s w2" for s
      using that w0 by (rule consistent_frame)
    ultimately show ?thesis
      using inv by (auto simp: task_inv_def t split: if_splits)
  qed
qed

lemma sorted_forward_final:
  assumes "sorted_wrt forward tr" and "i < j" and "j < length tr"
    and "tr ! i = Done \<or> tr ! i = Error"
  shows "tr ! j = tr ! i"
proof -
  from assms(1-3) have "forward (tr ! i) (tr ! j)"
    by (simp add: sorted_wrt_iff_nth_less)
  with assms(4) show ?thesis by (auto simp: forward_from_final)
qed

text \<open>The statuses a client is shown. No status was shown for the identifier before the
  upload that creates its job (the identifier is fresh). From the upload on, whatever
  events follow and in whatever order, the statuses shown for the identifier, in the
  status messages handed to \<open>ws.send\<close> and in the answers to
  \<open>GET /transcode-status/:id\<close>, are in the order \<open>queued\<close>, \<open>running\<close>, then
  \<open>done\<close> or \<open>error\<close>: each status shown is the one shown before it or a later one,
  so that after \<open>done\<close> only \<open>done\<close> and after \<open>error\<close> only \<open>error\<close> is shown
  (\<open>sorted_forward_final\<close>). This holds for the server of \<open>src/unnamed/part_000\<close>
  under every sequence of events; a client may ask for the status after any event, so
  the job's status itself never goes back there. For the server of \<open>src/main.js\<close>,
  whose encoder callbacks write the status themselves, it holds when the encoder ends its
  run at most once.\<close>

theorem statuses_shown_in_order:
  assumes "status_trace ident (observed w) = []"
  shows "(upload lb ident now (Some f) w = (out, Some t, w0) \<longrightarrow>
            sorted_wrt forward (status_trace ident (observed (snd (run lb evs (t, w0))))))
       \<and> (main_upload lb ident now (Some f) w = (out, Some t, w0) \<and> ends_once evs \<longrightarrow>
            sorted_wrt forward (status_trace ident (observed (snd (main_run lb evs (t, w0))))))"
proof (intro conjI impI)
  assume a: "upload lb ident now (Some f) w = (out, Some t, w0)"
  have "task_inv ident (t, w0)"
  proof (rule upload_with_inv [where schedule = schedule_transcode])
    show "task_inv ident (schedule_transcode ident finalName now w1)"
      if "status_trace ident (observed w1) = []" for finalName w1
      using that by (rule schedule_transcode_inv)
    show "status_trace ident (observed w) = []" by (rule assms)
    show "upload_with schedule_transcode lb ident now (Some f) w = (out, Some t, w0)"
      using a by (simp add: upload_def)
  qed
  then have "task_inv ident (run lb evs (t, w0))" by (rule run_inv)
  then show "sorted_wrt forward (status_trace ident (observed (snd (run lb evs (t, w0)))))"
    by (rule task_inv_sorted)
next
  assume a: "main_upload lb ident now (Some f) w = (out, Some t, w0) \<and> ends_once evs"
  have inv: "task_inv ident (t, w0)"
  proof (rule upload_with_inv [where schedule = main_schedule_transcode])
    show "task_inv ident (main_schedule_transcode ident finalName now w1)"
      if "status_trace ident (observed w1) = []" for finalName w1
      using that by (rule main_schedule_transcode_inv)
    show "status_trace ident (observed w) = []" by (rule assms)
    show "upload_with main_schedule_transcode lb ident now (Some f) w = (out, Some t, w0)"
      using a by (simp add: main_upload_def)
  qed
  have "\<not> settled t"
    using a
    by (auto simp: main_upload_def upload_with_def main_schedule_transcode_def Let_def
        writeData_def split: option.splits if_splits)
  with inv a have "task_inv ident (main_run lb evs (t, w0))"
    by (intro main_run_inv) simp_all
  then show "sorted_wrt forward (status_trace ident (observed (snd (main_run lb evs (t, w0)))))"
    by (rule task_inv_sorted)
qed

theorem statuses_shown_in_order_instance:
  "sorted_wrt forward
     (status_trace ''a''
        (observed (snd (run sample_libs sample_events (started_task, snd (snd started))))))
   \<and> status_trace ''a''
        (observed (snd (run sample_libs sample_events (started_task, snd (snd started))))) =
       [Running, Running, Running, Running, Running, Running, Running, Running,
        Done, Done, Done]
   \<and> sorted_wrt forward
       (status_trace ''a''
          (observed (snd (main_run sample_libs main_events
                            (main_started_task, snd (snd main_started))))))
   \<and> status_trace ''a''
        (observed (snd (main_run sample_libs main_events
                          (main_started_task, snd (snd main_started))))) =
       [Running, Running, Done]"
proof -
  have e: "status_trace ''a'' (observed upload_world) = []"
    by (simp add: upload_world_def empty_world_def)
  have "fst (snd started) = Some started_task"
    by code_simp
  then have u: "upload sample_libs ''a'' 5000 (Some avi_upload) upload_world =
      (fst started, Some started_task, snd (snd started))"
    by (metis prod.collapse started_def)
  have "fst (snd main_started) = Some main_started_task"
    by code_simp
  then have m: "main_upload sample_libs ''a'' 5000 (Some avi_upload) upload_world =
      (fst main_started, Some main_started_task, snd (snd main_started))"
    by (metis prod.collapse main_started_def)
  have o: "ends_once main_events"
    by (simp add: ends_once_def main_events_def)
  note T = statuses_shown_in_order [OF e]
  have "sorted_wrt forward
     (status_trace ''a''
        (observed (snd (run sample_libs sample_events (started_task, snd (snd started))))))"
    using T [THEN conjunct1] u by blast
  moreover have "sorted_wrt forward
       (status_trace ''a''
          (observed (snd (main_run sample_libs main_events
                            (main_started_task, snd (snd main_started))))))"
    using T [THEN conjunct2] m o by blast
  moreover have "status_trace ''a''
        (observed (snd (run sample_libs sample_events (started_task, snd (snd started))))) =
       [Running, Running, Running, Running, Running, Running, Running, Running,
        Done, Done, Done]"
    by code_simp
  moreover have "status_trace ''a''
        (observed (snd (main_run sample_libs main_events
                          (main_started_task, snd (snd main_started))))) =
       [Running, Running, Done]"
    by code_simp
  ultimately show ?thesis by blast
qed

text \<open>Claim C2 fails on the code of \<open>src/main.js\<close>. There the \<open>end\<close> callback of the
  encoder writes \<open>done\<close> before the file is replaced and the record updated. When the
  update throws, here because \<open>data.json\<close> cannot be written when the encoder ends,
  the \<open>catch\<close> of the task writes \<open>error\<close>: the status of the job leaves \<open>done\<close>,
  and the job ends as \<open>error\<close> with progress 100. Both writes happen in one turn of the
  event loop, so the \<open>done\<close> is never among the statuses shown. In
  \<open>src/unnamed/part_000\<close> the task writes \<open>done\<close> after the update and no final
  status is left.\<close>

theorem main_status_leaves_done:
  "transcodeJobs main_failing_world ''a'' =
     Some (queued_job\<lparr>status := Running, message := ''started''\<rparr>)
   \<and> transcodeJobs (main_end_callback main_started_task main_failing_world) ''a'' =
     Some (queued_job\<lparr>status := Done, progress := 100, message := ''finished''\<rparr>)
   \<and> transcodeJobs
       (snd (main_handle sample_libs (FfEnd 6000) (main_started_task, main_failing_world))) ''a'' =
     Some (queued_job\<lparr>status := Error, progress := 100,
             message := ''EACCES: permission denied, open data.json''\<rparr>)"
  by code_simp

text \<open>The same in general: whenever the replacement throws after the callback.\<close>

lemma main_on_end_replacement_throws:
  assumes "\<not> settled t" and "transcodeJobs w (jobId t) = Some j"
    and "replace_and_update lb t (main_end_callback t w) = Inl (msg, w2)"
  shows "transcodeJobs (snd (main_on_end lb t w)) (jobId t) =
           Some (j\<lparr>status := Error, progress := 100, message := error_text msg\<rparr>)
       \<and> observed (snd (main_on_end lb t w)) = observed w"
proof -
  let ?w1 = "main_end_callback t w"
  from replace_and_update_frame [where lb = lb and t = t and w = ?w1] assms(3)
  have f: "transcodeJobs w2 = transcodeJobs ?w1" "observed w2 = observed ?w1" by simp_all
  show ?thesis
    using assms
    by (simp add: main_on_end_def Let_def f transcodeJobs_update_job main_end_callback_def)
qed

end

